theory Spec2Isabelle
  imports Main "HOL-Library.List_Lexorder" "HOL-Library.Product_Lexorder"
begin

section \<open>Python strings and the library functions the program calls\<close>

text \<open>
  A Python \<open>str\<close> is a sequence of Unicode code points; a code point is a natural number
  (\<open>ord(c)\<close>). Literals of the source are written with \<open>ustr\<close>.
\<close>

type_synonym str = "nat list"

definition ustr :: "string \<Rightarrow> str" where
  "ustr s = map of_char s"

text \<open>
  The Unicode character database is not part of the repository. The functions of the
  standard library that read it are parameters of the model:
  \<^item> \<open>isspace\<close>: the class \<open>\s\<close> of \<open>re\<close>, which is also what \<open>str.strip()\<close> and
    \<open>str.split()\<close> without arguments remove;
  \<^item> \<open>isdigit\<close>: the class \<open>\d\<close> of \<open>re\<close> (its complement is \<open>\D\<close>);
  \<^item> \<open>nfkc\<close>: \<open>unicodedata.normalize("NFKC", s)\<close>;
  \<^item> \<open>upper\<close>, \<open>lower\<close>: \<open>str.upper()\<close> and \<open>str.lower()\<close>, on whole strings, since
    one code point may map to several and \<open>lower\<close> looks at the context.
\<close>

record unicode =
  isspace :: "nat \<Rightarrow> bool"
  isdigit :: "nat \<Rightarrow> bool"
  nfkc :: "str \<Rightarrow> str"
  upper :: "str \<Rightarrow> str"
  lower :: "str \<Rightarrow> str"

text \<open>\<open>s.replace(a, b)\<close> for a one-character \<open>a\<close>.\<close>

definition replace_cp :: "nat \<Rightarrow> str \<Rightarrow> str \<Rightarrow> str" where
  "replace_cp a b s = concat (map (\<lambda>c. if c = a then b else [c]) s)"

text \<open>\<open>s.strip()\<close>, \<open>s.startswith(p)\<close>, \<open>s[-n:]\<close> (for \<open>n > 0\<close>) and \<open>a in s\<close>.\<close>

definition strip :: "unicode \<Rightarrow> str \<Rightarrow> str" where
  "strip U s = rev (dropWhile (isspace U) (rev (dropWhile (isspace U) s)))"

definition startswith :: "str \<Rightarrow> str \<Rightarrow> bool" where
  "startswith s p = (take (length p) s = p)"

definition last_n :: "nat \<Rightarrow> str \<Rightarrow> str" where
  "last_n n s = drop (length s - n) s"

fun contains :: "str \<Rightarrow> str \<Rightarrow> bool" where
  "contains [] a = (a = [])"
| "contains (h # hs) a = (take (length a) (h # hs) = a \<or> contains hs a)"

text \<open>
  \<open>re.sub(r"C+", r, s)\<close> for a character class \<open>C\<close>: every maximal run of characters of
  the class is replaced by \<open>r\<close>. The flag says whether the previous character was in the
  class.
\<close>

fun sub_runs :: "(nat \<Rightarrow> bool) \<Rightarrow> str \<Rightarrow> bool \<Rightarrow> str \<Rightarrow> str" where
  "sub_runs C r inrun [] = []"
| "sub_runs C r inrun (c # cs) =
     (if C c then (if inrun then sub_runs C r True cs else r @ sub_runs C r True cs)
      else c # sub_runs C r False cs)"

text \<open>\<open>s.split(sep)\<close> for a one-character separator, and \<open>sep.join(parts)\<close>.\<close>

fun split_on :: "nat \<Rightarrow> str \<Rightarrow> str list" where
  "split_on sep [] = [[]]"
| "split_on sep (c # cs) =
     (if c = sep then [] # split_on sep cs
      else (case split_on sep cs of [] \<Rightarrow> [[c]] | p # ps \<Rightarrow> (c # p) # ps))"

fun join :: "str \<Rightarrow> str list \<Rightarrow> str" where
  "join sep [] = []"
| "join sep [p] = p"
| "join sep (p # q # ps) = p @ sep @ join sep (q # ps)"

text \<open>
  \<open>s.split()\<close> without arguments: the maximal runs of non-whitespace characters. The
  second argument is the token being read, reversed.
\<close>

fun split_ws :: "unicode \<Rightarrow> str \<Rightarrow> str \<Rightarrow> str list" where
  "split_ws U cur [] = (if cur = [] then [] else [rev cur])"
| "split_ws U cur (c # cs) =
     (if isspace U c then (if cur = [] then split_ws U [] cs else rev cur # split_ws U [] cs)
      else split_ws U (c # cur) cs)"

text \<open>
  \<open>re.findall(r"\d{9,12}", s)\<close>: scanning from the left, a match is the longest run of
  9 to 12 digits at the current position; the scan resumes after the match, or one
  character further when there is none.
\<close>

function findall_d9_12 :: "unicode \<Rightarrow> str \<Rightarrow> str list" where
  "findall_d9_12 U [] = []"
| "findall_d9_12 U (c # cs) =
     (if 9 \<le> length (takeWhile (isdigit U) (take 12 (c # cs)))
      then takeWhile (isdigit U) (take 12 (c # cs))
           # findall_d9_12 U (drop (length (takeWhile (isdigit U) (take 12 (c # cs)))) (c # cs))
      else findall_d9_12 U cs)"
  by pat_completeness auto
termination
  by (relation "measure (\<lambda>(U, s). length s)") auto

text \<open>
  \<open>re.match(r"^(.*?),(.*)$", title)\<close>, returning the two groups. The dot does not match a
  line feed (code point 10) and \<open>$\<close> matches at the end or before a final line feed, so
  there is a match exactly when the text before the first comma has no line feed and the
  text after it has none, except possibly as its last character.
\<close>

definition match_comma :: "str \<Rightarrow> (str \<times> str) option" where
  "match_comma title =
     (let g1 = takeWhile (\<lambda>c. c \<noteq> 44) title;
          r = dropWhile (\<lambda>c. c \<noteq> 44) title
      in if r = [] then None
         else let g2 = (if tl r \<noteq> [] \<and> last (tl r) = 10 then butlast (tl r) else tl r)
              in if 10 \<in> set g1 \<or> 10 \<in> set g2 then None else Some (g1, g2))"

text \<open>
  \<open>xs.sort(key=k, reverse=True)\<close>: descending by key, elements with equal keys keep the
  order they had (the list is reversed, sorted stably and reversed again).
\<close>

definition sort_reverse :: "('a \<Rightarrow> 'k::linorder) \<Rightarrow> 'a list \<Rightarrow> 'a list" where
  "sort_reverse k xs = rev (sort_key k (rev xs))"

section \<open>Name and phone normalisation\<close>

definition APOSTROPHES :: "nat list" where
  "APOSTROPHES = [0x2019, 0x60, 0x2BC, 0x2B9, 0x2032, 0xFF07, 0xA78C]"

definition unify_apostrophes :: "str \<Rightarrow> str" where
  "unify_apostrophes s =
     (if s = [] then [] else fold (\<lambda>a s. replace_cp a [39] s) APOSTROPHES s)"

definition normalize_spaces :: "unicode \<Rightarrow> str \<Rightarrow> str" where
  "normalize_spaces U s =
     strip U (sub_runs (isspace U) [32] False (replace_cp 0xA0 [32] (nfkc U s)))"

text \<open>\<open>(x[:1].upper() + x[1:].lower()) if x else x\<close>, the body of the comprehension.\<close>

definition title_piece :: "unicode \<Rightarrow> str \<Rightarrow> str" where
  "title_piece U x = (if x = [] then x else upper U (take 1 x) @ lower U (drop 1 x))"

text \<open>The body of the loop \<open>for part in parts_by_dash\<close>: what is appended for one part.\<close>

definition title_part :: "unicode \<Rightarrow> str \<Rightarrow> str" where
  "title_part U part = join [39] (map (title_piece U) (split_on 39 part))"

definition smart_title :: "unicode \<Rightarrow> str \<Rightarrow> str" where
  "smart_title U token0 =
     (let token = strip U token0
      in if token = [] then []
         else join [45] (map (title_part U) (split_on 45 token)))"

definition normalize_fio_string :: "unicode \<Rightarrow> str \<Rightarrow> str" where
  "normalize_fio_string U raw =
     (let s = normalize_spaces U (unify_apostrophes raw);
          s = sub_runs (\<lambda>c. c \<in> {44, 46, 59}) [32] False s;
          s = normalize_spaces U s;
          tokens = filter (\<lambda>t. t \<noteq> []) (split_on 32 s);
          tokens = map (smart_title U) tokens
      in join [32] tokens)"

definition normalize_phone_e164_ua :: "unicode \<Rightarrow> str \<Rightarrow> str" where
  "normalize_phone_e164_ua U phone =
     (let digits = filter (isdigit U) phone
      in if digits = [] then ustr ''+380''
         else let digits = (if startswith digits (ustr ''0'') then ustr ''380'' @ digits
                            else digits);
                  body = (if startswith digits (ustr ''380'') then drop 3 digits
                          else dropWhile (\<lambda>c. c \<in> set (ustr ''380'')) digits);
                  body = last_n 9 body
              in ustr ''+380'' @ body)"

definition build_folder_title :: "unicode \<Rightarrow> str \<Rightarrow> str \<Rightarrow> str" where
  "build_folder_title U fio phone_e164 =
     normalize_fio_string U fio @ ustr '', '' @ normalize_phone_e164_ua U phone_e164"

definition normalize_folder_title_for_compare :: "unicode \<Rightarrow> str \<Rightarrow> str" where
  "normalize_folder_title_for_compare U title0 =
     (let title = normalize_spaces U (unify_apostrophes title0)
      in case match_comma title of
           None \<Rightarrow> normalize_fio_string U title
         | Some (g1, g2) \<Rightarrow>
             (let left = normalize_fio_string U (strip U g1);
                  right = strip U g2;
                  digits = filter (isdigit U) right;
                  phone = (if digits \<noteq> [] then normalize_phone_e164_ua U digits
                           else normalize_phone_e164_ua U right)
              in left @ ustr '', '' @ phone))"

definition extract_e164_from_title :: "unicode \<Rightarrow> str \<Rightarrow> str option" where
  "extract_e164_from_title U title =
     (let digits = filter (isdigit U) title
      in if length digits < 9 then None
         else let m = findall_d9_12 U digits
              in if m = [] then None else Some (normalize_phone_e164_ua U (last m)))"

section \<open>The document store\<close>

text \<open>
  The store is an external service. A folder record carries the two fields the queries
  ask for, \<open>files(id,name)\<close>. A call of \<open>drive.files().list(q, pageSize, pageToken)\<close>
  either raises \<open>HttpError\<close> or answers with a page of records and an optional token
  for the next page; what it answers is a parameter of the model.
\<close>

datatype error = HttpError | ValueError | KeyError | TypeError

record folder =
  fid :: str
  fname :: str

type_synonym drive = "str \<Rightarrow> nat \<Rightarrow> str option \<Rightarrow> error + (folder list \<times> str option)"

definition drive_search :: "drive \<Rightarrow> str \<Rightarrow> nat \<Rightarrow> str option \<Rightarrow> error + (folder list \<times> str option)" where
  "drive_search drive q page_size page_token = drive q page_size page_token"

text \<open>
  The paging loop \<open>while True: batch, token = drive_search(...); ...; if not token: break\<close>
  of \<open>find_folder_by_fuzzy\<close> and \<open>find_folder_by_phone\<close>. It runs as long as the
  store hands out tokens, so the model counts the calls it may still make: \<open>None\<close> is a
  loop that has not ended after that many calls, \<open>Some (Inl e)\<close> a call that raised.
\<close>

fun fetch_pages :: "nat \<Rightarrow> drive \<Rightarrow> str \<Rightarrow> str option \<Rightarrow> (error + folder list) option" where
  "fetch_pages 0 drive q token = None"
| "fetch_pages (Suc n) drive q token =
     (case drive_search drive q 100 token of
        Inl e \<Rightarrow> Some (Inl e)
      | Inr (batch, token') \<Rightarrow>
          (if token' = None \<or> token' = Some [] then Some (Inr batch)
           else (case fetch_pages n drive q token' of
                   None \<Rightarrow> None
                 | Some (Inl e) \<Rightarrow> Some (Inl e)
                 | Some (Inr rest) \<Rightarrow> Some (Inr (batch @ rest)))))"

section \<open>Folder search: exact, fuzzy, by phone\<close>

text \<open>The query strings are the f-strings of the source; code point 39 is the quote.\<close>

definition exact_query :: "str \<Rightarrow> str \<Rightarrow> str" where
  "exact_query parent_id exact_name =
     [39] @ parent_id @ [39] @ ustr '' in parents and name = '' @ [39] @ exact_name @ [39]
     @ ustr '' and mimeType='application/vnd.google-apps.folder' and trashed=false''"

definition find_folder_by_exact_name_under :: "drive \<Rightarrow> str \<Rightarrow> str \<Rightarrow> error + folder option" where
  "find_folder_by_exact_name_under drive parent_id exact_name =
     (case drive_search drive (exact_query parent_id exact_name) 1 None of
        Inl e \<Rightarrow> Inl e
      | Inr (res, _) \<Rightarrow> Inr (case res of [] \<Rightarrow> None | f # _ \<Rightarrow> Some f))"

text \<open>\<open>s.split(',')[0]\<close>.\<close>

definition before_comma :: "str \<Rightarrow> str" where
  "before_comma s = (case split_on 44 s of [] \<Rightarrow> [] | p # _ \<Rightarrow> p)"

definition fuzzy_query :: "str \<Rightarrow> str \<Rightarrow> str" where
  "fuzzy_query parent_id fio_norm =
     [39] @ parent_id @ [39]
     @ ustr '' in parents and mimeType='application/vnd.google-apps.folder' and name contains ''
     @ [39] @ before_comma fio_norm @ [39] @ ustr '' and trashed=false''"

text \<open>The part of \<open>find_folder_by_fuzzy\<close> after the paging loop.\<close>

definition fuzzy_pick :: "unicode \<Rightarrow> str \<Rightarrow> folder list \<Rightarrow> folder option" where
  "fuzzy_pick U phone_last9 items0 =
     (let items = (if phone_last9 \<noteq> []
                   then filter (\<lambda>f. contains (filter (isdigit U) (fname f)) phone_last9) items0
                   else items0)
      in case sort_reverse (\<lambda>f. length (fname f)) items of [] \<Rightarrow> None | f # _ \<Rightarrow> Some f)"

definition find_folder_by_fuzzy ::
  "unicode \<Rightarrow> drive \<Rightarrow> nat \<Rightarrow> str \<Rightarrow> str \<Rightarrow> str \<Rightarrow> (error + folder option) option" where
  "find_folder_by_fuzzy U drive fuel parent_id fio_norm phone_last9 =
     (case fetch_pages fuel drive (fuzzy_query parent_id fio_norm) None of
        None \<Rightarrow> None
      | Some (Inl e) \<Rightarrow> Some (Inl e)
      | Some (Inr items) \<Rightarrow> Some (Inr (fuzzy_pick U phone_last9 items)))"

definition phone_patterns :: "unicode \<Rightarrow> str \<Rightarrow> str list" where
  "phone_patterns U e164 =
     (let digits = filter (isdigit U) e164;
          last9 = last_n 9 digits;
          op2 = take 2 last9;
          mid3 = take 3 (drop 2 last9);
          last4 = take 4 (drop 5 last9)
      in [op2 @ ustr '' '' @ mid3 @ ustr '' '' @ last4,
          mid3 @ ustr '' '' @ last4,
          last4,
          last9,
          ustr ''+380 '' @ op2 @ ustr '' '' @ mid3 @ ustr '' '' @ last4,
          ustr ''+380'' @ op2 @ mid3 @ last4])"

definition phone_query :: "unicode \<Rightarrow> str \<Rightarrow> str \<Rightarrow> str" where
  "phone_query U parent_id e164 =
     (let conds = join (ustr '' or '')
                    (map (\<lambda>p. ustr ''name contains '' @ [39] @ p @ [39])
                         (filter (\<lambda>p. 39 \<notin> set p) (phone_patterns U e164)))
      in [39] @ parent_id @ [39]
         @ ustr '' in parents and mimeType='application/vnd.google-apps.folder' and trashed=false and (''
         @ conds @ ustr '')'')"

text \<open>
  \<open>seen.setdefault(f["id"], f)\<close> over all batches, then \<open>seen.values()\<close>: the first
  record of every id, in the order of arrival.
\<close>

fun seen_values :: "str list \<Rightarrow> folder list \<Rightarrow> folder list" where
  "seen_values ids [] = []"
| "seen_values ids (f # fs) =
     (if fid f \<in> set ids then seen_values ids fs else f # seen_values (fid f # ids) fs)"

text \<open>The loop \<open>for f in seen.values()\<close> that fills \<open>matched\<close>.\<close>

definition phone_matched :: "unicode \<Rightarrow> str \<Rightarrow> folder list \<Rightarrow> folder list" where
  "phone_matched U e164 items =
     filter (\<lambda>f. case extract_e164_from_title U (fname f) of
                    None \<Rightarrow> False
                  | Some cand \<Rightarrow> cand \<noteq> [] \<and> normalize_phone_e164_ua U cand = e164)
            (seen_values [] items)"

text \<open>The inner function \<open>tokens\<close> of \<open>find_folder_by_phone\<close>, as a list.\<close>

definition tokens :: "unicode \<Rightarrow> str \<Rightarrow> str list" where
  "tokens U s = filter (\<lambda>t. t \<noteq> []) (split_ws U [] (normalize_spaces U (before_comma s)))"

text \<open>\<open>len(tokens(x["name"]) & exp)\<close>, the two sets given as lists.\<close>

definition overlap :: "str list \<Rightarrow> str list \<Rightarrow> nat" where
  "overlap a b = length (remdups (filter (\<lambda>t. t \<in> set b) a))"

text \<open>
  The sort key \<open>lambda x: (len(tokens(x["name"]) & exp), len(x["name"]))\<close>; pairs are
  compared lexicographically, as Python compares tuples.
\<close>

definition overlap_key :: "unicode \<Rightarrow> str list \<Rightarrow> folder \<Rightarrow> nat \<times> nat" where
  "overlap_key U exp x = (overlap (tokens U (fname x)) exp, length (fname x))"

text \<open>The part of \<open>find_folder_by_phone\<close> from \<open>if not matched\<close> on.\<close>

definition phone_pick :: "unicode \<Rightarrow> str option \<Rightarrow> folder list \<Rightarrow> folder option" where
  "phone_pick U expected_fio matched =
     (if matched = [] then None
      else if length matched = 1 \<or> expected_fio = None \<or> expected_fio = Some []
      then (case sort_reverse (\<lambda>x. length (fname x)) matched of [] \<Rightarrow> None | f # _ \<Rightarrow> Some f)
      else (let exp = tokens U (case expected_fio of None \<Rightarrow> [] | Some s \<Rightarrow> s)
            in case sort_reverse (overlap_key U exp) matched of [] \<Rightarrow> None | f # _ \<Rightarrow> Some f))"

definition find_folder_by_phone ::
  "unicode \<Rightarrow> drive \<Rightarrow> nat \<Rightarrow> str \<Rightarrow> str \<Rightarrow> str option \<Rightarrow> (error + folder option) option" where
  "find_folder_by_phone U drive fuel parent_id phone_e164 expected_fio =
     (let e164 = normalize_phone_e164_ua U phone_e164
      in case fetch_pages fuel drive (phone_query U parent_id e164) None of
           None \<Rightarrow> None
         | Some (Inl e) \<Rightarrow> Some (Inl e)
         | Some (Inr items) \<Rightarrow> Some (Inr (phone_pick U expected_fio (phone_matched U e164 items))))"

definition find_client_folder_strict ::
  "unicode \<Rightarrow> drive \<Rightarrow> nat \<Rightarrow> str \<Rightarrow> str \<Rightarrow> str \<Rightarrow> (error + folder option) option" where
  "find_client_folder_strict U drive fuel root_folder_id expected_title phone_e164 =
     (case find_folder_by_exact_name_under drive root_folder_id expected_title of
        Inl e \<Rightarrow> Some (Inl e)
      | Inr (Some exact) \<Rightarrow> Some (Inr (Some exact))
      | Inr None \<Rightarrow>
          (let fio_only = normalize_folder_title_for_compare U expected_title;
               last9 = last_n 9 (filter (isdigit U) phone_e164)
           in case find_folder_by_fuzzy U drive fuel root_folder_id fio_only last9 of
                None \<Rightarrow> None
              | Some (Inl e) \<Rightarrow> Some (Inl e)
              | Some (Inr (Some fuzzy)) \<Rightarrow> Some (Inr (Some fuzzy))
              | Some (Inr None) \<Rightarrow>
                  find_folder_by_phone U drive fuel root_folder_id phone_e164 (Some expected_title)))"

section \<open>Stage history\<close>

text \<open>
  A \<open>datetime\<close> is a number of microseconds and, when it is aware, its offset from UTC:
  for an aware value \<open>ticks\<close> is the instant on the UTC time line, for a naive one the wall
  clock reading. A \<open>timedelta\<close> is a number of microseconds. Subtracting an aware and a
  naive value raises \<open>TypeError\<close>.
\<close>

record datetime =
  ticks :: int
  utcoffset :: "int option"

definition dt_sub :: "datetime \<Rightarrow> datetime \<Rightarrow> error + int" where
  "dt_sub a b =
     (if (utcoffset a = None) = (utcoffset b = None) then Inr (ticks a - ticks b)
      else Inl TypeError)"

text \<open>
  \<open>datetime.now(start.tzinfo or timezone.utc)\<close>, the clock reading \<open>now\<close> (an instant on
  the UTC time line) being a parameter.
\<close>

definition datetime_now :: "int \<Rightarrow> datetime \<Rightarrow> datetime" where
  "datetime_now now start =
     \<lparr>ticks = now, utcoffset = Some (case utcoffset start of None \<Rightarrow> 0 | Some off \<Rightarrow> off)\<rparr>"

text \<open>
  \<open>datetime.fromisoformat\<close> is a parameter: \<open>None\<close> stands for its \<open>ValueError\<close>.
\<close>

definition parse_iso :: "(str \<Rightarrow> datetime option) \<Rightarrow> str option \<Rightarrow> error + datetime" where
  "parse_iso fromisoformat ts =
     (case fromisoformat (replace_cp 90 (ustr ''+00:00'') (case ts of None \<Rightarrow> [] | Some s \<Rightarrow> s)) of
        None \<Rightarrow> Inl ValueError
      | Some d \<Rightarrow> Inr d)"

text \<open>
  A row of \<open>crm.stagehistory.list\<close>: the two keys the program reads, \<open>None\<close> for a key
  that is absent.
\<close>

record row =
  STAGE_ID :: "str option"
  CREATED_TIME :: "str option"

record segment =
  stage_id :: "str option"
  seg_start :: datetime
  seg_end :: datetime
  duration :: int

text \<open>The loop \<open>for r in items\<close> of \<open>get_deal_stage_history\<close>, with \<open>prev_sid\<close>.\<close>

fun dedup_rows :: "str option \<Rightarrow> row list \<Rightarrow> row list" where
  "dedup_rows prev_sid [] = []"
| "dedup_rows prev_sid (r # rs) =
     (if STAGE_ID r = prev_sid then dedup_rows prev_sid rs
      else r # dedup_rows (STAGE_ID r) rs)"

text \<open>
  \<open>get_deal_stage_history\<close> from the reply of the record system on: \<open>items[:limit]\<close>,
  the stable sort by the \<open>CREATED_TIME\<close> string (\<open>""\<close> when absent), the loop.
\<close>

definition get_deal_stage_history :: "row list \<Rightarrow> nat \<Rightarrow> row list" where
  "get_deal_stage_history items limit =
     dedup_rows None
       (sort_key (\<lambda>r. case CREATED_TIME r of None \<Rightarrow> [] | Some s \<Rightarrow> s) (take limit items))"

text \<open>
  \<open>compute_stage_segments\<close>: the loop over \<open>enumerate(rows)\<close>, the rest of the list
  standing for \<open>rows[i + 1:]\<close>. \<open>r.get("CREATED_TIME")\<close> gives \<open>None\<close> for an absent key,
  \<open>rows[i + 1]["CREATED_TIME"]\<close> raises \<open>KeyError\<close>.
\<close>

fun compute_stage_segments ::
  "(str \<Rightarrow> datetime option) \<Rightarrow> int \<Rightarrow> row list \<Rightarrow> error + segment list" where
  "compute_stage_segments fromisoformat now [] = Inr []"
| "compute_stage_segments fromisoformat now (r # rs) =
     (case parse_iso fromisoformat (CREATED_TIME r) of
        Inl e \<Rightarrow> Inl e
      | Inr start \<Rightarrow>
          (case (case rs of
                   [] \<Rightarrow> Inr (datetime_now now start)
                 | r' # _ \<Rightarrow> (case CREATED_TIME r' of
                               None \<Rightarrow> Inl KeyError
                             | Some ts \<Rightarrow> parse_iso fromisoformat (Some ts))) of
             Inl e \<Rightarrow> Inl e
           | Inr end' \<Rightarrow>
               (case dt_sub end' start of
                  Inl e \<Rightarrow> Inl e
                | Inr d \<Rightarrow>
                    (case compute_stage_segments fromisoformat now rs of
                       Inl e \<Rightarrow> Inl e
                     | Inr segs \<Rightarrow>
                         Inr (\<lparr>stage_id = STAGE_ID r, seg_start = start, seg_end = end',
                               duration = d\<rparr> # segs)))))"

section \<open>Library values at concrete inputs, and the conditions the properties need\<close>

text \<open>
  The values of the library functions on strings over ASCII and the letter U+00DF
  (sharp s): whitespace is \<open>\t \n \v \f \r\<close>, the separators U+001C to U+001F and the
  space; the digits are \<open>0\<close> to \<open>9\<close>; NFKC leaves these strings as they are;
  the upper case of U+00DF is \<open>"SS"\<close>. The concrete evaluations below stay inside this
  alphabet.
\<close>

definition ascii_upper :: "nat \<Rightarrow> nat" where
  "ascii_upper c = (if 97 \<le> c \<and> c \<le> 122 then c - 32 else c)"

definition ascii_lower :: "nat \<Rightarrow> nat" where
  "ascii_lower c = (if 65 \<le> c \<and> c \<le> 90 then c + 32 else c)"

definition unicode_fragment :: unicode where
  "unicode_fragment =
     \<lparr>isspace = (\<lambda>c. (9 \<le> c \<and> c \<le> 13) \<or> (28 \<le> c \<and> c \<le> 32)),
      isdigit = (\<lambda>c. 48 \<le> c \<and> c \<le> 57),
      nfkc = (\<lambda>s. s),
      upper = (\<lambda>s. concat (map (\<lambda>c. if c = 0xDF then [83, 83] else [ascii_upper c]) s)),
      lower = map ascii_lower\<rparr>"

text \<open>
  The values of \<open>datetime.fromisoformat\<close> at three timestamps: 2024-01-01T00:00:00 UTC is
  1704067200 seconds after the epoch.
\<close>

definition fromiso_fragment :: "str \<Rightarrow> datetime option" where
  "fromiso_fragment = map_of
     [(ustr ''2024-01-01T00:00:00+00:00'', \<lparr>ticks = 1704067200000000, utcoffset = Some 0\<rparr>),
      (ustr ''2024-01-01T00:00:10+00:00'', \<lparr>ticks = 1704067210000000, utcoffset = Some 0\<rparr>),
      (ustr ''2024-01-01T00:00:20+00:00'', \<lparr>ticks = 1704067220000000, utcoffset = Some 0\<rparr>)]"

text \<open>
  What the properties below need of the character classes; all of it holds of the Unicode
  database: line feed and space are whitespace; quote, plus, comma and hyphen are not;
  \<open>0\<close>, \<open>3\<close> and \<open>8\<close> are digits and plus is not; a digit is neither whitespace, nor the
  no-break space, nor one of the apostrophes.
\<close>

definition classes_ok :: "unicode \<Rightarrow> bool" where
  "classes_ok U \<longleftrightarrow>
     isspace U 10 \<and> isspace U 32 \<and>
     \<not> isspace U 39 \<and> \<not> isspace U 43 \<and> \<not> isspace U 44 \<and> \<not> isspace U 45 \<and>
     isdigit U 48 \<and> isdigit U 51 \<and> isdigit U 56 \<and> \<not> isdigit U 43 \<and>
     (\<forall>c. isdigit U c \<longrightarrow> \<not> isspace U c \<and> c \<noteq> 0xA0 \<and> c \<notin> set APOSTROPHES)"






definition clean_char :: "unicode \<Rightarrow> (nat \<Rightarrow> bool) \<Rightarrow> nat \<Rightarrow> bool" where
  "clean_char U A c \<longleftrightarrow>
     A c \<and> \<not> isspace U c \<and> c \<noteq> 32 \<and> c \<noteq> 0xA0 \<and> c \<notin> set APOSTROPHES"

text \<open>
  The surname token in the words of the specification: the first whitespace-delimited
  token of the name portion of the canonicalised title.
\<close>

definition surname_token :: "unicode \<Rightarrow> str \<Rightarrow> str" where
  "surname_token U expected_title =
     (case split_ws U [] (before_comma (normalize_folder_title_for_compare U expected_title)) of
        [] \<Rightarrow> [] | t # _ \<Rightarrow> t)"

text \<open>
  The ranking key in the words of the specification, with the tokens of the candidate in
  lower case, and the same with the tokens of the expected name in lower case too.
\<close>

definition lowercase_overlap_key :: "unicode \<Rightarrow> str list \<Rightarrow> folder \<Rightarrow> nat \<times> nat" where
  "lowercase_overlap_key U exp x =
     (overlap (map (lower U) (tokens U (fname x))) exp, length (fname x))"

definition caseless_overlap_key :: "unicode \<Rightarrow> str list \<Rightarrow> folder \<Rightarrow> nat \<times> nat" where
  "caseless_overlap_key U exp x =
     (overlap (map (lower U) (tokens U (fname x))) (map (lower U) exp), length (fname x))"

text \<open>Two retained events, twenty seconds apart, and their segments at 00:00:30.\<close>

definition example_rows :: "row list" where
  "example_rows =
     [\<lparr>STAGE_ID = Some (ustr ''NEW''), CREATED_TIME = Some (ustr ''2024-01-01T00:00:00+00:00'')\<rparr>,
      \<lparr>STAGE_ID = Some (ustr ''WON''), CREATED_TIME = Some (ustr ''2024-01-01T00:00:20+00:00'')\<rparr>]"

definition example_segments :: "segment list" where
  "example_segments =
     [\<lparr>stage_id = Some (ustr ''NEW''),
       seg_start = \<lparr>ticks = 1704067200000000, utcoffset = Some 0\<rparr>,
       seg_end = \<lparr>ticks = 1704067220000000, utcoffset = Some 0\<rparr>,
       duration = 20000000\<rparr>,
      \<lparr>stage_id = Some (ustr ''WON''),
       seg_start = \<lparr>ticks = 1704067220000000, utcoffset = Some 0\<rparr>,
       seg_end = \<lparr>ticks = 1704067230000000, utcoffset = Some 0\<rparr>,
       duration = 10000000\<rparr>]"

text \<open>
  Folder records for the concrete evaluations: an exact match of the title
  \<open>Melnyk Petro, +380671234567\<close>, names that carry the same number in other spellings,
  and a name with another number that ends in the same four digits.
\<close>

definition folder_exact :: folder where
  "folder_exact = \<lparr>fid = ustr ''1'', fname = ustr ''Melnyk Petro, +380671234567''\<rparr>"

definition folder_short :: folder where
  "folder_short = \<lparr>fid = ustr ''2'', fname = ustr ''Melnyk Petro, 380671234567''\<rparr>"

definition folder_long :: folder where
  "folder_long = \<lparr>fid = ustr ''3'', fname = ustr ''melnyk petro ivanovych, 380671234567''\<rparr>"

definition folder_other :: folder where
  "folder_other = \<lparr>fid = ustr ''4'', fname = ustr ''Melnyk Petro, 380501234567''\<rparr>"

text \<open>A store that answers every query with the same single page.\<close>

definition one_page_drive :: "folder list \<Rightarrow> drive" where
  "one_page_drive page q page_size page_token = Inr (page, None)"

text \<open>
  A store that answers the query \<open>q0\<close> with the single page \<open>hits\<close> and every other
  query with the single page \<open>others\<close>.
\<close>

definition answer_drive :: "str \<Rightarrow> folder list \<Rightarrow> folder list \<Rightarrow> drive" where
  "answer_drive q0 hits others q page_size page_token =
     (if q = q0 then Inr (hits, None) else Inr (others, None))"

text \<open>
  The values of \<open>datetime.fromisoformat\<close> at the timestamps of the night of 27 October
  2024, when the clocks of Kyiv went from 04:00 at the offset +03:00 back to 03:00 at the
  offset +02:00 (2024-10-27T00:00:00 UTC is 1729987200 seconds after the epoch; an offset
  is in seconds), and at three timestamps written without an offset, which parse to naive
  values.
\<close>

definition fromiso_offsets :: "str \<Rightarrow> datetime option" where
  "fromiso_offsets = map_of
     [(ustr ''2024-10-27T03:30:00+03:00'', \<lparr>ticks = 1729989000000000, utcoffset = Some 10800\<rparr>),
      (ustr ''2024-10-27T03:10:00+02:00'', \<lparr>ticks = 1729991400000000, utcoffset = Some 7200\<rparr>),
      (ustr ''2024-10-27T03:20:00+02:00'', \<lparr>ticks = 1729992000000000, utcoffset = Some 7200\<rparr>),
      (ustr ''2024-01-01T00:00:00'', \<lparr>ticks = 1704067200000000, utcoffset = None\<rparr>),
      (ustr ''2024-01-01T00:00:10'', \<lparr>ticks = 1704067210000000, utcoffset = None\<rparr>),
      (ustr ''2024-01-01T00:00:20'', \<lparr>ticks = 1704067220000000, utcoffset = None\<rparr>)]"

text \<open>
  The events \<open>[(A, t0), (A, t1), (B, t2)]\<close> of that night, in the order of time: \<open>t0\<close> is
  00:30 UTC, written at the offset +03:00; \<open>t1\<close> is 01:10 UTC and \<open>t2\<close> is 01:20 UTC,
  written at the offset +02:00.
\<close>

definition dst_items :: "row list" where
  "dst_items =
     [\<lparr>STAGE_ID = Some (ustr ''NEW''), CREATED_TIME = Some (ustr ''2024-10-27T03:30:00+03:00'')\<rparr>,
      \<lparr>STAGE_ID = Some (ustr ''NEW''), CREATED_TIME = Some (ustr ''2024-10-27T03:10:00+02:00'')\<rparr>,
      \<lparr>STAGE_ID = Some (ustr ''WON''), CREATED_TIME = Some (ustr ''2024-10-27T03:20:00+02:00'')\<rparr>]"

text \<open>The same shape of events with timestamps written without an offset.\<close>

definition naive_items :: "row list" where
  "naive_items =
     [\<lparr>STAGE_ID = Some (ustr ''NEW''), CREATED_TIME = Some (ustr ''2024-01-01T00:00:00'')\<rparr>,
      \<lparr>STAGE_ID = Some (ustr ''NEW''), CREATED_TIME = Some (ustr ''2024-01-01T00:00:10'')\<rparr>,
      \<lparr>STAGE_ID = Some (ustr ''WON''), CREATED_TIME = Some (ustr ''2024-01-01T00:00:20'')\<rparr>]"

text \<open>
  A string literal of the query language of the store, read from the character after its
  opening quote: a backslash takes the next character as it is, and the literal ends at
  the first quote that no backslash precedes (code point 39 is the quote, 92 the
  backslash). The result is the text of the literal and the rest of the query, \<open>None\<close>
  when the literal does not end.
\<close>

fun read_literal :: "str \<Rightarrow> str \<Rightarrow> (str \<times> str) option" where
  "read_literal acc [] = None"
| "read_literal acc [c] = (if c = 39 then Some (rev acc, []) else None)"
| "read_literal acc (c # d # cs) =
     (if c = 39 then Some (rev acc, d # cs)
      else if c = 92 then read_literal (d # acc) cs
      else read_literal (c # acc) (d # cs))"

text \<open>
  A store that holds the folders \<open>kids\<close> as the children of \<open>root\<close>, none of them
  trashed, and reads the query of the first tier the way the query language is written:
  the literal of the parent, \<open> in parents and name = \<close>, the literal of the name, and
  the two conditions on the type and the trash. It answers with the children of that name,
  at most \<open>page_size\<close> of them, on one page; a name-equals query that does not read this way
  is refused, as a request with an invalid query is. Queries of another shape get an
  empty page.
\<close>

definition literal_store :: "str \<Rightarrow> folder list \<Rightarrow> drive" where
  "literal_store root kids q page_size page_token =
     (case q of
        [] \<Rightarrow> Inl HttpError
      | c # q1 \<Rightarrow>
          (if c \<noteq> 39 then Inl HttpError
           else case read_literal [] q1 of
                  None \<Rightarrow> Inl HttpError
                | Some (parent, q2) \<Rightarrow>
                    (if startswith q2 (ustr '' in parents and name = '' @ [39])
                     then case read_literal [] (drop 24 q2) of
                            None \<Rightarrow> Inl HttpError
                          | Some (name, q3) \<Rightarrow>
                              (if q3 = ustr '' and mimeType='application/vnd.google-apps.folder' and trashed=false''
                               then Inr (take page_size
                                          (if parent = root then filter (\<lambda>f. fname f = name) kids
                                           else []), None)
                               else Inl HttpError)
                     else Inr ([], None))))"

text \<open>
  A store whose answer to the query \<open>q0\<close> comes in two pages, the first one empty and
  with a token, the second one holding \<open>hit\<close>; it answers every other query with the
  single page \<open>others\<close>.
\<close>

definition paged_drive :: "str \<Rightarrow> folder \<Rightarrow> folder list \<Rightarrow> drive" where
  "paged_drive q0 hit others q page_size page_token =
     (if q = q0
      then (case page_token of
              None \<Rightarrow> Inr ([], Some (ustr ''page2''))
            | Some _ \<Rightarrow> Inr ([hit], None))
      else Inr (others, None))"

text \<open>
  The folder of the client \<open>Melnyk Mar'yana\<close>, named by the title the program builds for
  that name and the number \<open>+380671234567\<close>.
\<close>

definition folder_quote :: folder where
  "folder_quote = \<lparr>fid = ustr ''5'', fname = ustr ''Melnyk Mar'Yana, +380671234567''\<rparr>"

section \<open>Stage history: segments\<close>

lemma css_Cons_Inr:
  assumes "compute_stage_segments F now (r # rs) = Inr segs"
  obtains start end' d rest where
    "parse_iso F (CREATED_TIME r) = Inr start"
    "rs = [] \<Longrightarrow> end' = datetime_now now start"
    "\<And>r' rs'. rs = r' # rs' \<Longrightarrow> parse_iso F (CREATED_TIME r') = Inr end'"
    "dt_sub end' start = Inr d"
    "compute_stage_segments F now rs = Inr rest"
    "segs = \<lparr>stage_id = STAGE_ID r, seg_start = start, seg_end = end', duration = d\<rparr> # rest"
  using assms
  apply (simp split: sum.splits)
  apply (cases rs)
   apply (auto split: sum.splits option.splits)
  done

lemma css_length:
  "compute_stage_segments F now rows = Inr segs \<Longrightarrow> length segs = length rows"
proof (induction rows arbitrary: segs)
  case Nil then show ?case by simp
next
  case (Cons r rs)
  from Cons.prems show ?case
    by (rule css_Cons_Inr) (simp add: Cons.IH)
qed

lemma dt_sub_Inr: "dt_sub a b = Inr d \<Longrightarrow> d = ticks a - ticks b"
  by (auto simp: dt_sub_def split: if_splits)

lemma css_duration:
  "compute_stage_segments F now rows = Inr segs \<Longrightarrow> seg \<in> set segs \<Longrightarrow>
   duration seg = ticks (seg_end seg) - ticks (seg_start seg)"
proof (induction rows arbitrary: segs)
  case Nil then show ?case by simp
next
  case (Cons r rs)
  from Cons.prems(1) show ?case
  proof (rule css_Cons_Inr)
    fix start end' d rest
    assume "dt_sub end' start = Inr d" "compute_stage_segments F now rs = Inr rest"
      "segs = \<lparr>stage_id = STAGE_ID r, seg_start = start, seg_end = end', duration = d\<rparr> # rest"
    with Cons.prems(2) Cons.IH show ?thesis
      by (auto dest: dt_sub_Inr)
  qed
qed

lemma css_starts:
  "compute_stage_segments F now rows = Inr segs \<Longrightarrow>
   map (\<lambda>r. parse_iso F (CREATED_TIME r)) rows = map (\<lambda>s. Inr (seg_start s)) segs"
proof (induction rows arbitrary: segs)
  case Nil then show ?case by simp
next
  case (Cons r rs)
  from Cons.prems show ?case
    by (rule css_Cons_Inr) (simp add: Cons.IH)
qed

lemma css_contiguous:
  "compute_stage_segments F now rows = Inr segs \<Longrightarrow> Suc i < length segs \<Longrightarrow>
   seg_end (segs ! i) = seg_start (segs ! Suc i)"
proof (induction rows arbitrary: segs i)
  case Nil then show ?case by simp
next
  case (Cons r rs)
  from Cons.prems(1) show ?case
  proof (rule css_Cons_Inr)
    fix start end' d rest
    assume nxt: "\<And>r' rs'. rs = r' # rs' \<Longrightarrow> parse_iso F (CREATED_TIME r') = Inr end'"
      and rest: "compute_stage_segments F now rs = Inr rest"
      and segs: "segs = \<lparr>stage_id = STAGE_ID r, seg_start = start, seg_end = end', duration = d\<rparr> # rest"
    show ?thesis
    proof (cases i)
      case 0
      from Cons.prems(2) segs obtain s rest' where r': "rest = s # rest'"
        by (cases rest) auto
      from css_length[OF rest] r' obtain r' rs' where rs: "rs = r' # rs'"
        by (cases rs) auto
      from css_starts[OF rest] rs r' have "parse_iso F (CREATED_TIME r') = Inr (seg_start s)"
        by simp
      with nxt[OF rs] have "end' = seg_start s" by simp
      with 0 segs r' show ?thesis by simp
    next
      case (Suc j)
      with Cons.prems(2) segs have "Suc j < length rest" by simp
      from Cons.IH[OF rest this] Suc segs show ?thesis by simp
    qed
  qed
qed

lemma css_last:
  "compute_stage_segments F now rows = Inr segs \<Longrightarrow> segs \<noteq> [] \<Longrightarrow>
   seg_end (last segs) = datetime_now now (seg_start (last segs))"
proof (induction rows arbitrary: segs)
  case Nil then show ?case by simp
next
  case (Cons r rs)
  from Cons.prems(1) show ?case
  proof (rule css_Cons_Inr)
    fix start end' d rest
    assume e: "rs = [] \<Longrightarrow> end' = datetime_now now start"
      and rest: "compute_stage_segments F now rs = Inr rest"
      and segs: "segs = \<lparr>stage_id = STAGE_ID r, seg_start = start, seg_end = end', duration = d\<rparr> # rest"
    show ?thesis
    proof (cases rest)
      case Nil
      with css_length[OF rest] have "rs = []" by simp
      with e segs Nil show ?thesis by simp
    next
      case (Cons s rest')
      with Cons.IH[OF rest] segs show ?thesis by simp
    qed
  qed
qed

lemma parse_iso_fragment:
  "parse_iso fromiso_fragment (Some (ustr ''2024-01-01T00:00:00+00:00''))
     = Inr \<lparr>ticks = 1704067200000000, utcoffset = Some 0\<rparr>"
  "parse_iso fromiso_fragment (Some (ustr ''2024-01-01T00:00:10+00:00''))
     = Inr \<lparr>ticks = 1704067210000000, utcoffset = Some 0\<rparr>"
  "parse_iso fromiso_fragment (Some (ustr ''2024-01-01T00:00:20+00:00''))
     = Inr \<lparr>ticks = 1704067220000000, utcoffset = Some 0\<rparr>"
  by (simp_all add: fromiso_fragment_def parse_iso_def replace_cp_def ustr_def)

text \<open>When every row has a timestamp that parses to an aware value, the segments are
  computed.\<close>

lemma css_total:
  assumes "\<forall>r\<in>set rows. \<exists>t. parse_iso F (CREATED_TIME r) = Inr t \<and> utcoffset t \<noteq> None
      \<and> CREATED_TIME r \<noteq> None"
  shows "\<exists>segs. compute_stage_segments F now rows = Inr segs"
  using assms
proof (induction rows)
  case Nil then show ?case by simp
next
  case (Cons r rs)
  from Cons.prems obtain t where t: "parse_iso F (CREATED_TIME r) = Inr t" "utcoffset t \<noteq> None"
    by auto
  from Cons obtain segs where segs: "compute_stage_segments F now rs = Inr segs" by auto
  show ?case
  proof (cases rs)
    case Nil
    with t segs show ?thesis by (simp add: dt_sub_def datetime_now_def)
  next
    case (Cons r' rs')
    with Cons.prems obtain t' ts where t': "parse_iso F (CREATED_TIME r') = Inr t'"
      "utcoffset t' \<noteq> None" "CREATED_TIME r' = Some ts" by auto
    with t segs Cons show ?thesis by (simp add: dt_sub_def)
  qed
qed

section \<open>Stage history: the retained events\<close>

text \<open>The ids of the retained events, seen from the end of the list: the next event is
  dropped exactly when its stage id is the one of the last retained event (or the initial
  \<open>prev_sid\<close> when nothing is retained yet).\<close>

lemma dedup_rows_snoc:
  "dedup_rows p (rows @ [r])
     = (if STAGE_ID r = last (p # map STAGE_ID (dedup_rows p rows)) then dedup_rows p rows
        else dedup_rows p rows @ [r])"
  by (induction rows arbitrary: p) simp_all

lemma dedup_rows_first:
  "dedup_rows None (r # rs)
     = (if STAGE_ID r = None then dedup_rows None rs else r # dedup_rows (STAGE_ID r) rs)"
  by simp

lemma dedup_rows_hd: "dedup_rows p rows = x # xs \<Longrightarrow> STAGE_ID x \<noteq> p"
  by (induction rows arbitrary: p) (auto split: if_splits)

text \<open>No two neighbours among the retained events have the same stage id.\<close>

lemma dedup_rows_adjacent:
  "Suc i < length (dedup_rows p rows) \<Longrightarrow>
   STAGE_ID (dedup_rows p rows ! i) \<noteq> STAGE_ID (dedup_rows p rows ! Suc i)"
proof (induction rows arbitrary: p i)
  case Nil then show ?case by simp
next
  case (Cons r rs)
  show ?case
  proof (cases "STAGE_ID r = p")
    case True
    with Cons show ?thesis by simp
  next
    case False
    show ?thesis
    proof (cases i)
      case 0
      with Cons.prems False obtain x xs where x: "dedup_rows (STAGE_ID r) rs = x # xs"
        by (cases "dedup_rows (STAGE_ID r) rs") auto
      from dedup_rows_hd[OF x] have "STAGE_ID x \<noteq> STAGE_ID r" .
      with 0 False x show ?thesis by auto
    next
      case (Suc j)
      with Cons.prems False have "Suc j < length (dedup_rows (STAGE_ID r) rs)" by simp
      from Cons.IH[OF this] Suc False show ?thesis by simp
    qed
  qed
qed

text \<open>The retained events are events of the list.\<close>

lemma dedup_rows_set: "set (dedup_rows p rows) \<subseteq> set rows"
  by (induction rows arbitrary: p) auto

lemma history_sorted:
  "sorted (map (\<lambda>r. case CREATED_TIME r of None \<Rightarrow> [] | Some s \<Rightarrow> s)
     (sort_key (\<lambda>r. case CREATED_TIME r of None \<Rightarrow> [] | Some s \<Rightarrow> s) (take limit items)))"
  by simp

lemma parse_iso_offsets:
  "parse_iso fromiso_offsets (Some (ustr ''2024-10-27T03:30:00+03:00''))
     = Inr \<lparr>ticks = 1729989000000000, utcoffset = Some 10800\<rparr>"
  "parse_iso fromiso_offsets (Some (ustr ''2024-10-27T03:10:00+02:00''))
     = Inr \<lparr>ticks = 1729991400000000, utcoffset = Some 7200\<rparr>"
  "parse_iso fromiso_offsets (Some (ustr ''2024-10-27T03:20:00+02:00''))
     = Inr \<lparr>ticks = 1729992000000000, utcoffset = Some 7200\<rparr>"
  "parse_iso fromiso_offsets (Some (ustr ''2024-01-01T00:00:00''))
     = Inr \<lparr>ticks = 1704067200000000, utcoffset = None\<rparr>"
  "parse_iso fromiso_offsets (Some (ustr ''2024-01-01T00:00:10''))
     = Inr \<lparr>ticks = 1704067210000000, utcoffset = None\<rparr>"
  "parse_iso fromiso_offsets (Some (ustr ''2024-01-01T00:00:20''))
     = Inr \<lparr>ticks = 1704067220000000, utcoffset = None\<rparr>"
  by (simp_all add: fromiso_offsets_def parse_iso_def replace_cp_def ustr_def)

text \<open>
  When the three timestamps are written so that the order of the strings is the order of
  time (one format, one offset) and parse to aware values, the events
  \<open>[(A, t0), (A, t1), (B, t2)]\<close> give the retained events \<open>[(A, t0), (B, t2)]\<close> and the
  two segments \<open>A\<close> from \<open>t0\<close> to \<open>t2\<close> and \<open>B\<close> from \<open>t2\<close> to the clock reading.
\<close>

lemma dedup_example_in_string_order:
  assumes "A \<noteq> B" and "s0 < s1" and "s1 < s2" and "3 \<le> limit"
    and "parse_iso F (Some s0) = Inr t0" and "parse_iso F (Some s2) = Inr t2"
    and "utcoffset t0 \<noteq> None" and "utcoffset t2 \<noteq> None"
  shows "get_deal_stage_history
           [\<lparr>STAGE_ID = Some A, CREATED_TIME = Some s0\<rparr>,
            \<lparr>STAGE_ID = Some A, CREATED_TIME = Some s1\<rparr>,
            \<lparr>STAGE_ID = Some B, CREATED_TIME = Some s2\<rparr>] limit
         = [\<lparr>STAGE_ID = Some A, CREATED_TIME = Some s0\<rparr>,
            \<lparr>STAGE_ID = Some B, CREATED_TIME = Some s2\<rparr>]
       \<and> compute_stage_segments F now
           [\<lparr>STAGE_ID = Some A, CREATED_TIME = Some s0\<rparr>,
            \<lparr>STAGE_ID = Some B, CREATED_TIME = Some s2\<rparr>]
         = Inr [\<lparr>stage_id = Some A, seg_start = t0, seg_end = t2,
                  duration = ticks t2 - ticks t0\<rparr>,
                \<lparr>stage_id = Some B, seg_start = t2, seg_end = datetime_now now t2,
                  duration = now - ticks t2\<rparr>]"
proof -
  from assms(2,3) have le: "s0 \<le> s1" "s1 \<le> s2" "s0 \<le> s2" by auto
  have hist: "get_deal_stage_history
           [\<lparr>STAGE_ID = Some A, CREATED_TIME = Some s0\<rparr>,
            \<lparr>STAGE_ID = Some A, CREATED_TIME = Some s1\<rparr>,
            \<lparr>STAGE_ID = Some B, CREATED_TIME = Some s2\<rparr>] limit
         = [\<lparr>STAGE_ID = Some A, CREATED_TIME = Some s0\<rparr>,
            \<lparr>STAGE_ID = Some B, CREATED_TIME = Some s2\<rparr>]"
    using assms(1,4) le by (simp add: get_deal_stage_history_def)
  have segs: "compute_stage_segments F now
           [\<lparr>STAGE_ID = Some A, CREATED_TIME = Some s0\<rparr>,
            \<lparr>STAGE_ID = Some B, CREATED_TIME = Some s2\<rparr>]
         = Inr [\<lparr>stage_id = Some A, seg_start = t0, seg_end = t2,
                  duration = ticks t2 - ticks t0\<rparr>,
                \<lparr>stage_id = Some B, seg_start = t2, seg_end = datetime_now now t2,
                  duration = now - ticks t2\<rparr>]"
    using assms(5-8) by (simp add: dt_sub_def datetime_now_def)
  from hist segs show ?thesis by simp
qed

text \<open>
  With timestamps written without an offset the retained events are those of the example,
  and the final segment raises: the clock is read as an aware value
  (\<open>datetime.now(start.tzinfo or timezone.utc)\<close>) and the start is naive.
\<close>

lemma naive_history_raises:
  "get_deal_stage_history naive_items 300
     = [\<lparr>STAGE_ID = Some (ustr ''NEW''), CREATED_TIME = Some (ustr ''2024-01-01T00:00:00'')\<rparr>,
        \<lparr>STAGE_ID = Some (ustr ''WON''), CREATED_TIME = Some (ustr ''2024-01-01T00:00:20'')\<rparr>]"
  "compute_stage_segments fromiso_offsets now (get_deal_stage_history naive_items 300)
     = Inl TypeError"
proof -
  show h: "get_deal_stage_history naive_items 300
     = [\<lparr>STAGE_ID = Some (ustr ''NEW''), CREATED_TIME = Some (ustr ''2024-01-01T00:00:00'')\<rparr>,
        \<lparr>STAGE_ID = Some (ustr ''WON''), CREATED_TIME = Some (ustr ''2024-01-01T00:00:20'')\<rparr>]"
    by (simp add: get_deal_stage_history_def naive_items_def) (simp add: ustr_def)
  show "compute_stage_segments fromiso_offsets now (get_deal_stage_history naive_items 300)
     = Inl TypeError"
    unfolding h by (simp add: parse_iso_offsets dt_sub_def datetime_now_def)
qed

text \<open>
  C6 (as stated, refuted). One retained event at 00:00:10 and a clock that reads
  00:00:05: the segment is stored with the duration of minus five seconds.
\<close>

theorem C6_counterexample:
  "compute_stage_segments fromiso_fragment 1704067205000000
     [\<lparr>STAGE_ID = Some (ustr ''NEW''), CREATED_TIME = Some (ustr ''2024-01-01T00:00:10+00:00'')\<rparr>]
   = Inr [\<lparr>stage_id = Some (ustr ''NEW''),
           seg_start = \<lparr>ticks = 1704067210000000, utcoffset = Some 0\<rparr>,
           seg_end = \<lparr>ticks = 1704067205000000, utcoffset = Some 0\<rparr>,
           duration = - 5000000\<rparr>]"
  by (simp add: parse_iso_fragment dt_sub_def datetime_now_def)

text \<open>
  C6 (amended). For every list of retained events and every reading \<open>now\<close> of the clock,
  every segment that \<open>compute_stage_segments\<close> produces has the stored duration end minus
  start exactly, with no floor at zero. The stored duration of the final segment is the
  clock reading minus the timestamp of the final event, so it is negative exactly when
  that timestamp is later than the clock reading.
\<close>

theorem C6_duration_is_end_minus_start:
  assumes "compute_stage_segments F now rows = Inr segs"
  shows "(\<forall>seg\<in>set segs. duration seg = ticks (seg_end seg) - ticks (seg_start seg))
       \<and> (segs \<noteq> [] \<longrightarrow>
            ticks (seg_end (last segs)) = now
          \<and> duration (last segs) = now - ticks (seg_start (last segs))
          \<and> (duration (last segs) < 0 \<longleftrightarrow> now < ticks (seg_start (last segs))))"
proof -
  have all: "\<forall>seg\<in>set segs. duration seg = ticks (seg_end seg) - ticks (seg_start seg)"
    using css_duration[OF assms] by blast
  have fin: "segs \<noteq> [] \<longrightarrow>
            ticks (seg_end (last segs)) = now
          \<and> duration (last segs) = now - ticks (seg_start (last segs))
          \<and> (duration (last segs) < 0 \<longleftrightarrow> now < ticks (seg_start (last segs)))"
  proof
    assume ne: "segs \<noteq> []"
    from css_last[OF assms ne] have e: "ticks (seg_end (last segs)) = now"
      by (simp add: datetime_now_def)
    from ne have "last segs \<in> set segs" by simp
    with all have "duration (last segs) = ticks (seg_end (last segs)) - ticks (seg_start (last segs))"
      by blast
    with e have d: "duration (last segs) = now - ticks (seg_start (last segs))" by simp
    from e d show "ticks (seg_end (last segs)) = now
          \<and> duration (last segs) = now - ticks (seg_start (last segs))
          \<and> (duration (last segs) < 0 \<longleftrightarrow> now < ticks (seg_start (last segs)))"
      by simp
  qed
  from all fin show ?thesis by blast
qed

theorem C6_duration_is_end_minus_start_witness:
  "compute_stage_segments fromiso_fragment 1704067215000000
     [\<lparr>STAGE_ID = Some (ustr ''NEW''), CREATED_TIME = Some (ustr ''2024-01-01T00:00:00+00:00'')\<rparr>,
      \<lparr>STAGE_ID = Some (ustr ''WON''), CREATED_TIME = Some (ustr ''2024-01-01T00:00:20+00:00'')\<rparr>]
   = Inr [\<lparr>stage_id = Some (ustr ''NEW''),
           seg_start = \<lparr>ticks = 1704067200000000, utcoffset = Some 0\<rparr>,
           seg_end = \<lparr>ticks = 1704067220000000, utcoffset = Some 0\<rparr>,
           duration = 20000000\<rparr>,
          \<lparr>stage_id = Some (ustr ''WON''),
           seg_start = \<lparr>ticks = 1704067220000000, utcoffset = Some 0\<rparr>,
           seg_end = \<lparr>ticks = 1704067215000000, utcoffset = Some 0\<rparr>,
           duration = - 5000000\<rparr>]
   \<and> duration \<lparr>stage_id = Some (ustr ''NEW''),
           seg_start = \<lparr>ticks = 1704067200000000, utcoffset = Some 0\<rparr>,
           seg_end = \<lparr>ticks = 1704067220000000, utcoffset = Some 0\<rparr>,
           duration = 20000000\<rparr>
     = ticks \<lparr>ticks = 1704067220000000, utcoffset = Some 0\<rparr>
       - ticks \<lparr>ticks = 1704067200000000, utcoffset = Some 0\<rparr>
   \<and> duration \<lparr>stage_id = Some (ustr ''WON''),
           seg_start = \<lparr>ticks = 1704067220000000, utcoffset = Some 0\<rparr>,
           seg_end = \<lparr>ticks = 1704067215000000, utcoffset = Some 0\<rparr>,
           duration = - 5000000\<rparr>
     = 1704067215000000 - ticks \<lparr>ticks = 1704067220000000, utcoffset = Some 0\<rparr>
   \<and> duration \<lparr>stage_id = Some (ustr ''WON''),
           seg_start = \<lparr>ticks = 1704067220000000, utcoffset = Some 0\<rparr>,
           seg_end = \<lparr>ticks = 1704067215000000, utcoffset = Some 0\<rparr>,
           duration = - 5000000\<rparr> < 0
   \<and> (1704067215000000 :: int) < ticks \<lparr>ticks = 1704067220000000, utcoffset = Some 0\<rparr>"
proof -
  let ?a = "\<lparr>stage_id = Some (ustr ''NEW''),
           seg_start = \<lparr>ticks = 1704067200000000, utcoffset = Some 0\<rparr>,
           seg_end = \<lparr>ticks = 1704067220000000, utcoffset = Some 0\<rparr>,
           duration = 20000000\<rparr>"
  let ?b = "\<lparr>stage_id = Some (ustr ''WON''),
           seg_start = \<lparr>ticks = 1704067220000000, utcoffset = Some 0\<rparr>,
           seg_end = \<lparr>ticks = 1704067215000000, utcoffset = Some 0\<rparr>,
           duration = - 5000000\<rparr>"
  have run: "compute_stage_segments fromiso_fragment 1704067215000000
     [\<lparr>STAGE_ID = Some (ustr ''NEW''), CREATED_TIME = Some (ustr ''2024-01-01T00:00:00+00:00'')\<rparr>,
      \<lparr>STAGE_ID = Some (ustr ''WON''), CREATED_TIME = Some (ustr ''2024-01-01T00:00:20+00:00'')\<rparr>]
     = Inr [?a, ?b]"
    by (simp add: parse_iso_fragment dt_sub_def datetime_now_def)
  note t = C6_duration_is_end_minus_start[OF run]
  from t have a: "duration ?a = ticks (seg_end ?a) - ticks (seg_start ?a)" by simp
  have ne: "[?a, ?b] \<noteq> []" by simp
  from t ne have l: "duration (last [?a, ?b]) = 1704067215000000 - ticks (seg_start (last [?a, ?b]))"
    "duration (last [?a, ?b]) < 0 \<longleftrightarrow> 1704067215000000 < ticks (seg_start (last [?a, ?b]))"
    by blast+
  have lt: "(1704067215000000 :: int) < ticks \<lparr>ticks = 1704067220000000, utcoffset = Some 0\<rparr>"
    by simp
  from l lt have b: "duration ?b = 1704067215000000 - ticks \<lparr>ticks = 1704067220000000, utcoffset = Some 0\<rparr>"
    "duration ?b < 0" by simp_all
  from a have a': "duration ?a = ticks \<lparr>ticks = 1704067220000000, utcoffset = Some 0\<rparr>
       - ticks \<lparr>ticks = 1704067200000000, utcoffset = Some 0\<rparr>" by simp
  from run a' b lt show ?thesis by blast
qed

text \<open>
  C8 (the program differs). The events \<open>[(NEW, t0), (NEW, t1), (WON, t2)]\<close> of the night
  the clocks went back, \<open>t0 < t1 < t2\<close> in time, \<open>t0\<close> written at the offset +03:00 and
  the other two at +02:00. \<open>get_deal_stage_history\<close> sorts by the \<open>CREATED_TIME\<close> strings,
  which puts \<open>t0\<close> last: three events are retained, \<open>(NEW, t1)\<close>, \<open>(WON, t2)\<close> and
  \<open>(NEW, t0)\<close>, and \<open>compute_stage_segments\<close> produces three segments, the second one
  ending fifty minutes before it starts.
\<close>

theorem C8_offsets_reordered:
  "map (\<lambda>r. parse_iso fromiso_offsets (CREATED_TIME r)) dst_items
     = [Inr \<lparr>ticks = 1729989000000000, utcoffset = Some 10800\<rparr>,
        Inr \<lparr>ticks = 1729991400000000, utcoffset = Some 7200\<rparr>,
        Inr \<lparr>ticks = 1729992000000000, utcoffset = Some 7200\<rparr>]
   \<and> (1729989000000000 :: int) < 1729991400000000
   \<and> (1729991400000000 :: int) < 1729992000000000
   \<and> map STAGE_ID dst_items = [Some (ustr ''NEW''), Some (ustr ''NEW''), Some (ustr ''WON'')]
   \<and> get_deal_stage_history dst_items 300
     = [\<lparr>STAGE_ID = Some (ustr ''NEW''), CREATED_TIME = Some (ustr ''2024-10-27T03:10:00+02:00'')\<rparr>,
        \<lparr>STAGE_ID = Some (ustr ''WON''), CREATED_TIME = Some (ustr ''2024-10-27T03:20:00+02:00'')\<rparr>,
        \<lparr>STAGE_ID = Some (ustr ''NEW''), CREATED_TIME = Some (ustr ''2024-10-27T03:30:00+03:00'')\<rparr>]
   \<and> compute_stage_segments fromiso_offsets 1729994400000000 (get_deal_stage_history dst_items 300)
     = Inr [\<lparr>stage_id = Some (ustr ''NEW''),
              seg_start = \<lparr>ticks = 1729991400000000, utcoffset = Some 7200\<rparr>,
              seg_end = \<lparr>ticks = 1729992000000000, utcoffset = Some 7200\<rparr>,
              duration = 600000000\<rparr>,
            \<lparr>stage_id = Some (ustr ''WON''),
              seg_start = \<lparr>ticks = 1729992000000000, utcoffset = Some 7200\<rparr>,
              seg_end = \<lparr>ticks = 1729989000000000, utcoffset = Some 10800\<rparr>,
              duration = - 3000000000\<rparr>,
            \<lparr>stage_id = Some (ustr ''NEW''),
              seg_start = \<lparr>ticks = 1729989000000000, utcoffset = Some 10800\<rparr>,
              seg_end = \<lparr>ticks = 1729994400000000, utcoffset = Some 10800\<rparr>,
              duration = 5400000000\<rparr>]"
proof -
  have p: "map (\<lambda>r. parse_iso fromiso_offsets (CREATED_TIME r)) dst_items
     = [Inr \<lparr>ticks = 1729989000000000, utcoffset = Some 10800\<rparr>,
        Inr \<lparr>ticks = 1729991400000000, utcoffset = Some 7200\<rparr>,
        Inr \<lparr>ticks = 1729992000000000, utcoffset = Some 7200\<rparr>]"
    by (simp add: dst_items_def parse_iso_offsets)
  have i: "map STAGE_ID dst_items = [Some (ustr ''NEW''), Some (ustr ''NEW''), Some (ustr ''WON'')]"
    by (simp add: dst_items_def)
  have h: "get_deal_stage_history dst_items 300
     = [\<lparr>STAGE_ID = Some (ustr ''NEW''), CREATED_TIME = Some (ustr ''2024-10-27T03:10:00+02:00'')\<rparr>,
        \<lparr>STAGE_ID = Some (ustr ''WON''), CREATED_TIME = Some (ustr ''2024-10-27T03:20:00+02:00'')\<rparr>,
        \<lparr>STAGE_ID = Some (ustr ''NEW''), CREATED_TIME = Some (ustr ''2024-10-27T03:30:00+03:00'')\<rparr>]"
    by (simp add: get_deal_stage_history_def dst_items_def) (simp add: ustr_def)
  have s: "compute_stage_segments fromiso_offsets 1729994400000000
       [\<lparr>STAGE_ID = Some (ustr ''NEW''), CREATED_TIME = Some (ustr ''2024-10-27T03:10:00+02:00'')\<rparr>,
        \<lparr>STAGE_ID = Some (ustr ''WON''), CREATED_TIME = Some (ustr ''2024-10-27T03:20:00+02:00'')\<rparr>,
        \<lparr>STAGE_ID = Some (ustr ''NEW''), CREATED_TIME = Some (ustr ''2024-10-27T03:30:00+03:00'')\<rparr>]
     = Inr [\<lparr>stage_id = Some (ustr ''NEW''),
              seg_start = \<lparr>ticks = 1729991400000000, utcoffset = Some 7200\<rparr>,
              seg_end = \<lparr>ticks = 1729992000000000, utcoffset = Some 7200\<rparr>,
              duration = 600000000\<rparr>,
            \<lparr>stage_id = Some (ustr ''WON''),
              seg_start = \<lparr>ticks = 1729992000000000, utcoffset = Some 7200\<rparr>,
              seg_end = \<lparr>ticks = 1729989000000000, utcoffset = Some 10800\<rparr>,
              duration = - 3000000000\<rparr>,
            \<lparr>stage_id = Some (ustr ''NEW''),
              seg_start = \<lparr>ticks = 1729989000000000, utcoffset = Some 10800\<rparr>,
              seg_end = \<lparr>ticks = 1729994400000000, utcoffset = Some 10800\<rparr>,
              duration = 5400000000\<rparr>]"
    by (simp add: parse_iso_offsets dt_sub_def datetime_now_def)
  from p i h s show ?thesis by (simp only:) simp
qed

text \<open>
  C9 (as stated, refuted). One event at 00:00:20 and a clock that reads 00:00:00: the end
  of the final segment is the clock reading, which is before the event.
\<close>

theorem C9_counterexample:
  "compute_stage_segments fromiso_fragment 1704067200000000
     [\<lparr>STAGE_ID = Some (ustr ''WON''), CREATED_TIME = Some (ustr ''2024-01-01T00:00:20+00:00'')\<rparr>]
   = Inr [\<lparr>stage_id = Some (ustr ''WON''),
           seg_start = \<lparr>ticks = 1704067220000000, utcoffset = Some 0\<rparr>,
           seg_end = \<lparr>ticks = 1704067200000000, utcoffset = Some 0\<rparr>,
           duration = - 20000000\<rparr>]
   \<and> ticks \<lparr>ticks = 1704067200000000, utcoffset = Some 0\<rparr>
     < ticks \<lparr>ticks = 1704067220000000, utcoffset = Some 0\<rparr>"
  by (simp add: parse_iso_fragment dt_sub_def datetime_now_def)

text \<open>
  C9 (amended). For a non-empty event list on which \<open>compute_stage_segments\<close> returns:
  there is one segment for each event, starting at the event's timestamp; the end of a
  segment is the start of the next one; the end of the final segment is the clock
  reading. When the timestamps are ascending and the clock is not behind the last of
  them, no segment ends before it starts and the end of the final segment is greater
  than or equal to every timestamp.
\<close>

theorem C9_segments_contiguous:
  assumes "compute_stage_segments F now rows = Inr segs" and "rows \<noteq> []"
  shows "length segs = length rows
     \<and> map (\<lambda>r. parse_iso F (CREATED_TIME r)) rows = map (\<lambda>s. Inr (seg_start s)) segs
     \<and> (Suc i < length segs \<longrightarrow> seg_end (segs ! i) = seg_start (segs ! Suc i))
     \<and> ticks (seg_end (last segs)) = now
     \<and> (sorted (map (\<lambda>s. ticks (seg_start s)) segs) \<and> ticks (seg_start (last segs)) \<le> now
          \<and> seg \<in> set segs
        \<longrightarrow> ticks (seg_start seg) \<le> ticks (seg_end seg)
          \<and> ticks (seg_start seg) \<le> ticks (seg_end (last segs)))"
proof -
  note run = assms(1)
  have len: "length segs = length rows" by (rule css_length[OF run])
  with assms(2) have ne: "segs \<noteq> []" by auto
  have fin: "seg_end (last segs) = datetime_now now (seg_start (last segs))"
    by (rule css_last[OF run ne])
  then have fin_ticks: "ticks (seg_end (last segs)) = now" by (simp add: datetime_now_def)
  have order: "ticks (seg_start seg) \<le> ticks (seg_end seg)
          \<and> ticks (seg_start seg) \<le> ticks (seg_end (last segs))"
    if srt: "sorted (map (\<lambda>s. ticks (seg_start s)) segs)"
      and clock: "ticks (seg_start (last segs)) \<le> now" and mem: "seg \<in> set segs"
  proof -
    from mem obtain j where j: "j < length segs" "seg = segs ! j"
      by (auto simp: in_set_conv_nth)
    have mono: "ticks (seg_start (segs ! a)) \<le> ticks (seg_start (segs ! b))"
      if "a \<le> b" "b < length segs" for a b
      using sorted_nth_mono[OF srt, of a b] that by simp
    have last_nth: "last segs = segs ! (length segs - 1)"
      using ne by (rule last_conv_nth)
    have to_last: "ticks (seg_start seg) \<le> ticks (seg_start (last segs))"
      using mono[of j "length segs - 1"] j ne by (simp add: last_nth)
    have own: "ticks (seg_start seg) \<le> ticks (seg_end seg)"
    proof (cases "Suc j < length segs")
      case True
      from css_contiguous[OF run True] mono[of j "Suc j"] True j show ?thesis by simp
    next
      case False
      with j have "j = length segs - 1" by simp
      with j last_nth have "seg = last segs" by simp
      with fin_ticks clock show ?thesis by simp
    qed
    from own to_last clock fin_ticks show ?thesis by simp
  qed
  from len css_starts[OF run] css_contiguous[OF run] fin_ticks order show ?thesis by blast
qed

theorem C9_segments_contiguous_witness:
  "compute_stage_segments fromiso_fragment 1704067230000000 example_rows = Inr example_segments
   \<and> example_rows \<noteq> []
   \<and> length example_segments = length example_rows
   \<and> map (\<lambda>r. parse_iso fromiso_fragment (CREATED_TIME r)) example_rows
       = map (\<lambda>s. Inr (seg_start s)) example_segments
   \<and> Suc 0 < length example_segments
   \<and> seg_end (example_segments ! 0) = seg_start (example_segments ! Suc 0)
   \<and> ticks (seg_end (last example_segments)) = 1704067230000000
   \<and> sorted (map (\<lambda>s. ticks (seg_start s)) example_segments)
   \<and> ticks (seg_start (last example_segments)) \<le> 1704067230000000
   \<and> example_segments ! 0 \<in> set example_segments
   \<and> ticks (seg_start (example_segments ! 0)) \<le> ticks (seg_end (example_segments ! 0))
   \<and> ticks (seg_start (example_segments ! 0)) \<le> ticks (seg_end (last example_segments))"
proof -
  have run: "compute_stage_segments fromiso_fragment 1704067230000000 example_rows
      = Inr example_segments"
    by (simp add: example_rows_def example_segments_def parse_iso_fragment dt_sub_def
        datetime_now_def)
  have ne: "example_rows \<noteq> []" by (simp add: example_rows_def)
  have hyps: "Suc 0 < length example_segments"
    "sorted (map (\<lambda>s. ticks (seg_start s)) example_segments)"
    "ticks (seg_start (last example_segments)) \<le> 1704067230000000"
    "example_segments ! 0 \<in> set example_segments"
    by (simp_all add: example_segments_def)
  from C9_segments_contiguous[OF run ne, of 0 "example_segments ! 0"] run ne hyps
  show ?thesis by blast
qed

section \<open>The phone normaliser\<close>

lemma ustr_simps:
  "ustr ''+380'' = [43, 51, 56, 48]" "ustr ''380'' = [51, 56, 48]" "ustr ''0'' = [48]"
  "ustr '', '' = [44, 32]"
  by (simp_all add: ustr_def)

lemma last_n_length: "length (last_n n s) = min n (length s)"
  by (auto simp: last_n_def)

lemma last_n_set: "set (last_n n s) \<subseteq> set s"
  by (auto simp: last_n_def dest: in_set_dropD)

lemma last_n_short: "length s \<le> n \<Longrightarrow> last_n n s = s"
  by (simp add: last_n_def)

text \<open>The phone normaliser writes the prefix and then the last nine characters of a body
  that is a part of the digits of the input.\<close>

lemma normalize_phone_body:
  "\<exists>body. set body \<subseteq> set (filter (isdigit U) phone)
     \<and> normalize_phone_e164_ua U phone = ustr ''+380'' @ last_n 9 body
     \<and> (startswith (filter (isdigit U) phone) (ustr ''0'') \<longrightarrow> body = filter (isdigit U) phone)
     \<and> (startswith (filter (isdigit U) phone) (ustr ''380'')
          \<longrightarrow> body = drop 3 (filter (isdigit U) phone))"
proof (cases "filter (isdigit U) phone = []")
  case True
  then show ?thesis
    by (intro exI[of _ "[]"]) (simp add: normalize_phone_e164_ua_def last_n_def startswith_def ustr_simps)
next
  case False
  let ?d = "filter (isdigit U) phone"
  show ?thesis
  proof (cases "startswith ?d (ustr ''0'')")
    case True
    then have no380: "\<not> startswith ?d (ustr ''380'')"
      by (cases ?d) (auto simp: startswith_def ustr_simps)
    from False True no380 show ?thesis
      by (intro exI[of _ ?d])
         (simp add: normalize_phone_e164_ua_def Let_def startswith_def ustr_simps)
  next
    case no0: False
    show ?thesis
    proof (cases "startswith ?d (ustr ''380'')")
      case True
      with False no0 show ?thesis
        by (intro exI[of _ "drop 3 ?d"])
           (auto simp: normalize_phone_e164_ua_def Let_def dest: in_set_dropD)
    next
      case False
      with \<open>?d \<noteq> []\<close> no0 show ?thesis
        by (intro exI[of _ "dropWhile (\<lambda>c. c \<in> set (ustr ''380'')) ?d"])
           (auto simp: normalize_phone_e164_ua_def Let_def dest: set_dropWhileD)
    qed
  qed
qed

lemma normalize_phone_shape:
  "normalize_phone_e164_ua U phone = ustr ''+380'' @ drop 4 (normalize_phone_e164_ua U phone)
   \<and> length (drop 4 (normalize_phone_e164_ua U phone)) \<le> 9
   \<and> list_all (isdigit U) (drop 4 (normalize_phone_e164_ua U phone))"
proof -
  from normalize_phone_body[of U phone] obtain body where
    b: "set body \<subseteq> set (filter (isdigit U) phone)"
    and eq: "normalize_phone_e164_ua U phone = ustr ''+380'' @ last_n 9 body" by blast
  from eq have d: "drop 4 (normalize_phone_e164_ua U phone) = last_n 9 body"
    by (simp add: ustr_simps)
  from b last_n_set[of 9 body] have "list_all (isdigit U) (last_n 9 body)"
    by (auto simp: list_all_iff)
  with eq d show ?thesis by (simp add: last_n_length)
qed

lemma normalize_phone_canonical:
  assumes "classes_ok U" and "list_all (isdigit U) b" and "length b \<le> 9"
  shows "normalize_phone_e164_ua U (ustr ''+380'' @ b) = ustr ''+380'' @ b"
proof -
  from assms(2) have f: "filter (isdigit U) b = b"
    by (simp add: list_all_iff)
  from assms(1) have c: "isdigit U 48" "isdigit U 51" "isdigit U 56" "\<not> isdigit U 43"
    by (simp_all add: classes_ok_def)
  show ?thesis
    using c f assms(3)
    by (simp add: normalize_phone_e164_ua_def Let_def ustr_simps startswith_def last_n_short)
qed

lemma normalize_phone_idem:
  assumes "classes_ok U"
  shows "normalize_phone_e164_ua U (normalize_phone_e164_ua U phone) = normalize_phone_e164_ua U phone"
proof -
  from normalize_phone_shape[of U phone]
  have "normalize_phone_e164_ua U phone = ustr ''+380'' @ drop 4 (normalize_phone_e164_ua U phone)"
    and "length (drop 4 (normalize_phone_e164_ua U phone)) \<le> 9"
    and "list_all (isdigit U) (drop 4 (normalize_phone_e164_ua U phone))" by simp_all
  with normalize_phone_canonical[OF assms, of "drop 4 (normalize_phone_e164_ua U phone)"]
  show ?thesis by simp
qed

lemma classes_ok_fragment: "classes_ok unicode_fragment"
  by (auto simp: classes_ok_def unicode_fragment_def APOSTROPHES_def)

text \<open>The digits after the prefix are a trailing part of the digits of the input: what
  the normaliser takes away, it takes away at the front.\<close>

lemma last_n_suffix: "\<exists>pre. s = pre @ last_n n s"
proof
  show "s = take (length s - n) s @ last_n n s" by (simp add: last_n_def)
qed

lemma normalize_phone_cases:
  "(filter (isdigit U) phone = [] \<longrightarrow> normalize_phone_e164_ua U phone = ustr ''+380'')
   \<and> (startswith (filter (isdigit U) phone) (ustr ''0'')
        \<longrightarrow> normalize_phone_e164_ua U phone = ustr ''+380'' @ last_n 9 (filter (isdigit U) phone))
   \<and> (startswith (filter (isdigit U) phone) (ustr ''380'')
        \<longrightarrow> normalize_phone_e164_ua U phone
            = ustr ''+380'' @ last_n 9 (drop 3 (filter (isdigit U) phone)))
   \<and> (\<not> startswith (filter (isdigit U) phone) (ustr ''0'')
        \<and> \<not> startswith (filter (isdigit U) phone) (ustr ''380'')
        \<longrightarrow> normalize_phone_e164_ua U phone
            = ustr ''+380'' @ last_n 9 (dropWhile (\<lambda>c. c \<in> set (ustr ''380'')) (filter (isdigit U) phone)))"
proof -
  let ?d = "filter (isdigit U) phone"
  have e: "?d = [] \<longrightarrow> normalize_phone_e164_ua U phone = ustr ''+380''"
    by (simp add: normalize_phone_e164_ua_def)
  have z: "startswith ?d (ustr ''0'')
        \<longrightarrow> normalize_phone_e164_ua U phone = ustr ''+380'' @ last_n 9 ?d"
  proof
    assume s: "startswith ?d (ustr ''0'')"
    then have ne: "?d \<noteq> []" by (auto simp: startswith_def ustr_simps)
    from s ne show "normalize_phone_e164_ua U phone = ustr ''+380'' @ last_n 9 ?d"
      by (simp add: normalize_phone_e164_ua_def Let_def startswith_def ustr_simps)
  qed
  have p: "startswith ?d (ustr ''380'')
        \<longrightarrow> normalize_phone_e164_ua U phone = ustr ''+380'' @ last_n 9 (drop 3 ?d)"
  proof
    assume s: "startswith ?d (ustr ''380'')"
    then have ne: "?d \<noteq> []" by (auto simp: startswith_def ustr_simps)
    from s have no0: "\<not> startswith ?d (ustr ''0'')"
      by (cases ?d) (auto simp: startswith_def ustr_simps)
    from s ne no0 show "normalize_phone_e164_ua U phone = ustr ''+380'' @ last_n 9 (drop 3 ?d)"
      by (simp add: normalize_phone_e164_ua_def Let_def)
  qed
  have o: "\<not> startswith ?d (ustr ''0'') \<and> \<not> startswith ?d (ustr ''380'')
        \<longrightarrow> normalize_phone_e164_ua U phone
            = ustr ''+380'' @ last_n 9 (dropWhile (\<lambda>c. c \<in> set (ustr ''380'')) ?d)"
  proof
    assume s: "\<not> startswith ?d (ustr ''0'') \<and> \<not> startswith ?d (ustr ''380'')"
    show "normalize_phone_e164_ua U phone
            = ustr ''+380'' @ last_n 9 (dropWhile (\<lambda>c. c \<in> set (ustr ''380'')) ?d)"
    proof (cases "?d = []")
      case True
      then show ?thesis by (simp add: normalize_phone_e164_ua_def last_n_def)
    next
      case False
      with s show ?thesis by (simp add: normalize_phone_e164_ua_def Let_def)
    qed
  qed
  from e z p o show ?thesis by blast
qed

lemma normalize_phone_suffix:
  "\<exists>pre. filter (isdigit U) phone = pre @ drop 4 (normalize_phone_e164_ua U phone)"
proof -
  let ?d = "filter (isdigit U) phone"
  have "\<exists>pre body. ?d = pre @ body \<and> normalize_phone_e164_ua U phone = ustr ''+380'' @ last_n 9 body"
  proof (cases "startswith ?d (ustr ''0'')")
    case True
    with normalize_phone_cases[of U phone]
    have "?d = [] @ ?d \<and> normalize_phone_e164_ua U phone = ustr ''+380'' @ last_n 9 ?d" by simp
    then show ?thesis by blast
  next
    case no0: False
    show ?thesis
    proof (cases "startswith ?d (ustr ''380'')")
      case True
      with normalize_phone_cases[of U phone]
      have "?d = take 3 ?d @ drop 3 ?d
          \<and> normalize_phone_e164_ua U phone = ustr ''+380'' @ last_n 9 (drop 3 ?d)" by simp
      then show ?thesis by blast
    next
      case False
      with no0 normalize_phone_cases[of U phone]
      have "?d = takeWhile (\<lambda>c. c \<in> set (ustr ''380'')) ?d @ dropWhile (\<lambda>c. c \<in> set (ustr ''380'')) ?d
          \<and> normalize_phone_e164_ua U phone
            = ustr ''+380'' @ last_n 9 (dropWhile (\<lambda>c. c \<in> set (ustr ''380'')) ?d)" by simp
      then show ?thesis by blast
    qed
  qed
  then obtain pre body where d: "?d = pre @ body"
    and eq: "normalize_phone_e164_ua U phone = ustr ''+380'' @ last_n 9 body" by blast
  from last_n_suffix[of body 9] obtain pre' where b: "body = pre' @ last_n 9 body" by blast
  from eq have "drop 4 (normalize_phone_e164_ua U phone) = last_n 9 body"
    by (simp add: ustr_simps)
  with d b have "?d = (pre @ pre') @ drop 4 (normalize_phone_e164_ua U phone)" by simp
  then show ?thesis by blast
qed

text \<open>
  C1 (as stated, refuted). The input \<open>"5"\<close> has a digit; the result is the prefix and one
  digit.
\<close>

theorem C1_counterexample:
  "normalize_phone_e164_ua unicode_fragment (ustr ''5'') = ustr ''+3805''"
  by (simp add: normalize_phone_e164_ua_def unicode_fragment_def ustr_def startswith_def
      last_n_def Let_def)

text \<open>
  C1 (amended). For every input string the phone normaliser returns the prefix \<open>+380\<close>
  followed by at most nine digits of the input, none when the input has no digit. They
  are a trailing part of the sequence of the digits of the input: its last nine (all of
  them when there are fewer) when the digits start with \<open>0\<close>; the last nine of what
  follows the leading \<open>380\<close> when they start with \<open>380\<close>; the last nine of what follows
  the leading run of the characters \<open>3\<close>, \<open>8\<close> and \<open>0\<close> otherwise. There are exactly nine,
  the last nine digits of the input, when the digits of the input start with \<open>0\<close> and are
  nine or more, and when they start with \<open>380\<close> and are twelve or more.
\<close>

theorem C1_phone_shape:
  "normalize_phone_e164_ua U phone = ustr ''+380'' @ drop 4 (normalize_phone_e164_ua U phone)
   \<and> length (drop 4 (normalize_phone_e164_ua U phone)) \<le> 9
   \<and> list_all (isdigit U) (drop 4 (normalize_phone_e164_ua U phone))
   \<and> (\<exists>pre. filter (isdigit U) phone = pre @ drop 4 (normalize_phone_e164_ua U phone))
   \<and> (filter (isdigit U) phone = [] \<longrightarrow> normalize_phone_e164_ua U phone = ustr ''+380'')
   \<and> (startswith (filter (isdigit U) phone) (ustr ''0'')
        \<longrightarrow> drop 4 (normalize_phone_e164_ua U phone) = last_n 9 (filter (isdigit U) phone))
   \<and> (startswith (filter (isdigit U) phone) (ustr ''380'')
        \<longrightarrow> drop 4 (normalize_phone_e164_ua U phone) = last_n 9 (drop 3 (filter (isdigit U) phone)))
   \<and> (\<not> startswith (filter (isdigit U) phone) (ustr ''0'')
        \<and> \<not> startswith (filter (isdigit U) phone) (ustr ''380'')
        \<longrightarrow> drop 4 (normalize_phone_e164_ua U phone)
            = last_n 9 (dropWhile (\<lambda>c. c \<in> set (ustr ''380'')) (filter (isdigit U) phone)))
   \<and> (startswith (filter (isdigit U) phone) (ustr ''0'') \<and> 9 \<le> length (filter (isdigit U) phone)
        \<longrightarrow> drop 4 (normalize_phone_e164_ua U phone) = last_n 9 (filter (isdigit U) phone)
          \<and> length (drop 4 (normalize_phone_e164_ua U phone)) = 9)
   \<and> (startswith (filter (isdigit U) phone) (ustr ''380'') \<and> 12 \<le> length (filter (isdigit U) phone)
        \<longrightarrow> drop 4 (normalize_phone_e164_ua U phone) = last_n 9 (filter (isdigit U) phone)
          \<and> length (drop 4 (normalize_phone_e164_ua U phone)) = 9)"
proof -
  let ?d = "filter (isdigit U) phone"
  let ?r = "normalize_phone_e164_ua U phone"
  note c = normalize_phone_cases[of U phone]
  have e: "?d = [] \<longrightarrow> ?r = ustr ''+380''" using c by blast
  have z: "startswith ?d (ustr ''0'') \<longrightarrow> drop 4 ?r = last_n 9 ?d"
  proof
    assume "startswith ?d (ustr ''0'')"
    with c have "?r = ustr ''+380'' @ last_n 9 ?d" by blast
    then show "drop 4 ?r = last_n 9 ?d" by (simp add: ustr_simps)
  qed
  have p: "startswith ?d (ustr ''380'') \<longrightarrow> drop 4 ?r = last_n 9 (drop 3 ?d)"
  proof
    assume "startswith ?d (ustr ''380'')"
    with c have "?r = ustr ''+380'' @ last_n 9 (drop 3 ?d)" by blast
    then show "drop 4 ?r = last_n 9 (drop 3 ?d)" by (simp add: ustr_simps)
  qed
  have o: "\<not> startswith ?d (ustr ''0'') \<and> \<not> startswith ?d (ustr ''380'')
        \<longrightarrow> drop 4 ?r = last_n 9 (dropWhile (\<lambda>c. c \<in> set (ustr ''380'')) ?d)"
  proof
    assume "\<not> startswith ?d (ustr ''0'') \<and> \<not> startswith ?d (ustr ''380'')"
    with c have "?r = ustr ''+380'' @ last_n 9 (dropWhile (\<lambda>c. c \<in> set (ustr ''380'')) ?d)"
      by blast
    then show "drop 4 ?r = last_n 9 (dropWhile (\<lambda>c. c \<in> set (ustr ''380'')) ?d)"
      by (simp add: ustr_simps)
  qed
  have a: "startswith ?d (ustr ''0'') \<and> 9 \<le> length ?d
        \<longrightarrow> drop 4 ?r = last_n 9 ?d \<and> length (drop 4 ?r) = 9"
    using z by (auto simp: last_n_length)
  have b: "startswith ?d (ustr ''380'') \<and> 12 \<le> length ?d
        \<longrightarrow> drop 4 ?r = last_n 9 ?d \<and> length (drop 4 ?r) = 9"
  proof
    assume h: "startswith ?d (ustr ''380'') \<and> 12 \<le> length ?d"
    with p have "drop 4 ?r = last_n 9 (drop 3 ?d)" by blast
    moreover from h have "last_n 9 (drop 3 ?d) = last_n 9 ?d" by (simp add: last_n_def)
    moreover from h have "length (last_n 9 ?d) = 9" by (simp add: last_n_length)
    ultimately show "drop 4 ?r = last_n 9 ?d \<and> length (drop 4 ?r) = 9" by simp
  qed
  from normalize_phone_shape[of U phone] normalize_phone_suffix[of U phone] e z p o a b
  show ?thesis by blast
qed

theorem C1_phone_shape_witness:
  "startswith (filter (isdigit unicode_fragment) (ustr ''067 123-45-67'')) (ustr ''0'')
   \<and> 9 \<le> length (filter (isdigit unicode_fragment) (ustr ''067 123-45-67''))
   \<and> filter (isdigit unicode_fragment) (ustr ''067 123-45-67'') = ustr ''0671234567''
   \<and> normalize_phone_e164_ua unicode_fragment (ustr ''067 123-45-67'') = ustr ''+380671234567''
   \<and> drop 4 (normalize_phone_e164_ua unicode_fragment (ustr ''067 123-45-67''))
       = last_n 9 (filter (isdigit unicode_fragment) (ustr ''067 123-45-67''))
   \<and> length (drop 4 (normalize_phone_e164_ua unicode_fragment (ustr ''067 123-45-67''))) = 9
   \<and> startswith (filter (isdigit unicode_fragment) (ustr ''+38 (067) 123-45-67'')) (ustr ''380'')
   \<and> 12 \<le> length (filter (isdigit unicode_fragment) (ustr ''+38 (067) 123-45-67''))
   \<and> normalize_phone_e164_ua unicode_fragment (ustr ''+38 (067) 123-45-67'') = ustr ''+380671234567''
   \<and> length (drop 4 (normalize_phone_e164_ua unicode_fragment (ustr ''+38 (067) 123-45-67''))) = 9
   \<and> \<not> startswith (filter (isdigit unicode_fragment) (ustr ''tel. 8-3-5-1'')) (ustr ''0'')
   \<and> \<not> startswith (filter (isdigit unicode_fragment) (ustr ''tel. 8-3-5-1'')) (ustr ''380'')
   \<and> normalize_phone_e164_ua unicode_fragment (ustr ''tel. 8-3-5-1'') = ustr ''+38051''
   \<and> drop 4 (normalize_phone_e164_ua unicode_fragment (ustr ''tel. 8-3-5-1''))
       = last_n 9 (dropWhile (\<lambda>c. c \<in> set (ustr ''380''))
           (filter (isdigit unicode_fragment) (ustr ''tel. 8-3-5-1'')))
   \<and> filter (isdigit unicode_fragment) (ustr ''no digits here'') = []
   \<and> normalize_phone_e164_ua unicode_fragment (ustr ''no digits here'') = ustr ''+380''"
proof -
  let ?U = unicode_fragment
  have h1: "startswith (filter (isdigit ?U) (ustr ''067 123-45-67'')) (ustr ''0'')"
    "9 \<le> length (filter (isdigit ?U) (ustr ''067 123-45-67''))"
    "filter (isdigit ?U) (ustr ''067 123-45-67'') = ustr ''0671234567''"
    by (simp_all add: unicode_fragment_def ustr_def startswith_def)
  have v1: "normalize_phone_e164_ua ?U (ustr ''067 123-45-67'') = ustr ''+380671234567''"
    by (simp add: normalize_phone_e164_ua_def unicode_fragment_def ustr_def startswith_def
      last_n_def Let_def)
  have h2: "startswith (filter (isdigit ?U) (ustr ''+38 (067) 123-45-67'')) (ustr ''380'')"
    "12 \<le> length (filter (isdigit ?U) (ustr ''+38 (067) 123-45-67''))"
    by (simp_all add: unicode_fragment_def ustr_def startswith_def)
  have v2: "normalize_phone_e164_ua ?U (ustr ''+38 (067) 123-45-67'') = ustr ''+380671234567''"
    by (simp add: normalize_phone_e164_ua_def unicode_fragment_def ustr_def startswith_def
      last_n_def Let_def)
  have h3: "\<not> startswith (filter (isdigit ?U) (ustr ''tel. 8-3-5-1'')) (ustr ''0'')"
    "\<not> startswith (filter (isdigit ?U) (ustr ''tel. 8-3-5-1'')) (ustr ''380'')"
    by (simp_all add: unicode_fragment_def ustr_def startswith_def)
  have v3: "normalize_phone_e164_ua ?U (ustr ''tel. 8-3-5-1'') = ustr ''+38051''"
    by (simp add: normalize_phone_e164_ua_def unicode_fragment_def ustr_def startswith_def
      last_n_def Let_def)
  have h4: "filter (isdigit ?U) (ustr ''no digits here'') = []"
    by (simp add: unicode_fragment_def ustr_def)
  note t1 = C1_phone_shape[of ?U "ustr ''067 123-45-67''"]
  note t2 = C1_phone_shape[of ?U "ustr ''+38 (067) 123-45-67''"]
  note t3 = C1_phone_shape[of ?U "ustr ''tel. 8-3-5-1''"]
  note t4 = C1_phone_shape[of ?U "ustr ''no digits here''"]
  from t1 h1 have a1: "drop 4 (normalize_phone_e164_ua ?U (ustr ''067 123-45-67''))
       = last_n 9 (filter (isdigit ?U) (ustr ''067 123-45-67''))"
    "length (drop 4 (normalize_phone_e164_ua ?U (ustr ''067 123-45-67''))) = 9" by blast+
  from t2 h2 have a2: "length (drop 4 (normalize_phone_e164_ua ?U (ustr ''+38 (067) 123-45-67''))) = 9"
    by blast
  from t3 h3 have a3: "drop 4 (normalize_phone_e164_ua ?U (ustr ''tel. 8-3-5-1''))
       = last_n 9 (dropWhile (\<lambda>c. c \<in> set (ustr ''380''))
           (filter (isdigit ?U) (ustr ''tel. 8-3-5-1'')))" by blast
  from t4 h4 have a4: "normalize_phone_e164_ua ?U (ustr ''no digits here'') = ustr ''+380''"
    by blast
  from h1 v1 a1 h2 v2 a2 h3 v3 a3 h4 a4 show ?thesis by blast
qed

section \<open>Evaluation at concrete inputs\<close>

lemmas frag = unicode_fragment_def ascii_upper_def ascii_lower_def

lemmas ns_eval = normalize_spaces_def strip_def replace_cp_def ustr_def unify_apostrophes_def
  APOSTROPHES_def frag

lemmas nf_eval = normalize_fio_string_def smart_title_def title_part_def title_piece_def ns_eval

lemmas np_eval = normalize_phone_e164_ua_def startswith_def last_n_def ustr_def frag

lemma match_comma_steps:
  assumes "takeWhile (\<lambda>c. c \<noteq> 44) t = g1" and "dropWhile (\<lambda>c. c \<noteq> 44) t = 44 # g2"
    and "10 \<notin> set g1" and "10 \<notin> set g2"
  shows "match_comma t = Some (g1, g2)"
proof -
  from assms(4) have "\<not> (g2 \<noteq> [] \<and> last g2 = 10)"
    by (metis last_in_set)
  with assms show ?thesis by (auto simp add: match_comma_def Let_def)
qed

lemma title_for_compare_steps:
  assumes "normalize_spaces U (unify_apostrophes t0) = t"
    and "match_comma t = Some (g1, g2)"
    and "normalize_fio_string U (strip U g1) = left"
    and "filter (isdigit U) (strip U g2) = d" and "d \<noteq> []"
    and "normalize_phone_e164_ua U d = phone"
  shows "normalize_folder_title_for_compare U t0 = left @ ustr '', '' @ phone"
  using assms by (simp add: normalize_folder_title_for_compare_def)

lemma title_for_compare_example:
  "normalize_folder_title_for_compare unicode_fragment (ustr ''Melnyk Petro, +380671234567'')
     = ustr ''Melnyk Petro, +380671234567''"
proof -
  have 1: "normalize_spaces unicode_fragment (unify_apostrophes (ustr ''Melnyk Petro, +380671234567''))
     = ustr ''Melnyk Petro, +380671234567''"
    by (simp add: ns_eval)
  have 2: "match_comma (ustr ''Melnyk Petro, +380671234567'')
     = Some (ustr ''Melnyk Petro'', ustr '' +380671234567'')"
    by (rule match_comma_steps) (simp_all add: ustr_def)
  have 3: "normalize_fio_string unicode_fragment (strip unicode_fragment (ustr ''Melnyk Petro''))
     = ustr ''Melnyk Petro''"
    by (simp add: nf_eval)
  have 4: "filter (isdigit unicode_fragment) (strip unicode_fragment (ustr '' +380671234567''))
     = ustr ''380671234567''"
    by (simp add: ns_eval)
  have 5: "ustr ''380671234567'' \<noteq> []" by (simp add: ustr_def)
  have 6: "normalize_phone_e164_ua unicode_fragment (ustr ''380671234567'') = ustr ''+380671234567''"
    by (simp add: np_eval)
  from title_for_compare_steps[OF 1 2 3 4 5 6] show ?thesis by (simp add: ustr_def)
qed

lemma phone_example:
  "normalize_phone_e164_ua unicode_fragment (ustr ''+380671234567'') = ustr ''+380671234567''"
  by (simp add: np_eval)

lemma extract_examples:
  "extract_e164_from_title unicode_fragment (fname folder_exact) = Some (ustr ''+380671234567'')"
  "extract_e164_from_title unicode_fragment (fname folder_short) = Some (ustr ''+380671234567'')"
  "extract_e164_from_title unicode_fragment (fname folder_long) = Some (ustr ''+380671234567'')"
  "extract_e164_from_title unicode_fragment (fname folder_other) = Some (ustr ''+380501234567'')"
  by (simp_all add: extract_e164_from_title_def np_eval folder_exact_def folder_short_def
      folder_long_def folder_other_def)

lemma folder_ids:
  "fid folder_exact = ustr ''1''" "fid folder_short = ustr ''2''"
  "fid folder_long = ustr ''3''" "fid folder_other = ustr ''4''"
  by (simp_all add: folder_exact_def folder_short_def folder_long_def folder_other_def)

lemma ids_distinct:
  "ustr ''1'' \<noteq> ustr ''2''" "ustr ''1'' \<noteq> ustr ''3''" "ustr ''1'' \<noteq> ustr ''4''"
  "ustr ''2'' \<noteq> ustr ''3''" "ustr ''2'' \<noteq> ustr ''4''" "ustr ''3'' \<noteq> ustr ''4''"
  "ustr ''2'' \<noteq> ustr ''1''" "ustr ''3'' \<noteq> ustr ''1''" "ustr ''4'' \<noteq> ustr ''1''"
  "ustr ''3'' \<noteq> ustr ''2''" "ustr ''4'' \<noteq> ustr ''2''" "ustr ''4'' \<noteq> ustr ''3''"
  by (simp_all add: ustr_def)

lemma phones_distinct: "ustr ''+380501234567'' \<noteq> ustr ''+380671234567''"
  by (simp add: ustr_def)

lemma phone_example2:
  "normalize_phone_e164_ua unicode_fragment (ustr ''+380501234567'') = ustr ''+380501234567''"
  by (simp add: np_eval)

lemma nonempty_phone: "ustr ''+380671234567'' \<noteq> []" "ustr ''+380501234567'' \<noteq> []"
  by (simp_all add: ustr_def)

lemma phone_matched_example:
  "phone_matched unicode_fragment (ustr ''+380671234567'') [folder_short, folder_other]
     = [folder_short]"
  by (simp add: phone_matched_def folder_ids ids_distinct extract_examples phone_example
      phone_example2 phones_distinct nonempty_phone)

lemma fuzzy_query_example:
  "fuzzy_query (ustr ''root'')
     (normalize_folder_title_for_compare unicode_fragment (ustr ''Melnyk Petro, +380671234567''))
   = ustr '''root' in parents and mimeType='application/vnd.google-apps.folder' and name contains 'Melnyk Petro' and trashed=false''"
  by (simp add: title_for_compare_example fuzzy_query_def before_comma_def) (simp add: ustr_def)

lemma surname_token_example:
  "surname_token unicode_fragment (ustr ''Melnyk Petro, +380671234567'') = ustr ''Melnyk''"
  by (simp add: surname_token_def title_for_compare_example before_comma_def)
     (simp add: ustr_def frag)

lemma folder_names:
  "fname folder_exact = ustr ''Melnyk Petro, +380671234567''"
  "fname folder_short = ustr ''Melnyk Petro, 380671234567''"
  "fname folder_long = ustr ''melnyk petro ivanovych, 380671234567''"
  "fname folder_other = ustr ''Melnyk Petro, 380501234567''"
  by (simp_all add: folder_exact_def folder_short_def folder_long_def folder_other_def)

lemma fuzzy_kept_example:
  "filter (\<lambda>f. contains (filter (isdigit unicode_fragment) (fname f))
                  (last_n 9 (filter (isdigit unicode_fragment) (ustr ''+380671234567''))))
     [folder_short, folder_long, folder_other] = [folder_short, folder_long]"
  by (simp add: folder_names) (simp add: ustr_def frag last_n_def)

lemma fuzzy_sorted_example:
  "sort_reverse (\<lambda>f. length (fname f)) [folder_short, folder_long] = [folder_long, folder_short]"
  by (simp add: sort_reverse_def folder_names) (simp add: ustr_def)

lemma queries_distinct:
  "fuzzy_query (ustr ''root'')
     (normalize_folder_title_for_compare unicode_fragment (ustr ''Melnyk Petro, +380671234567''))
   \<noteq> exact_query (ustr ''root'') (ustr ''Melnyk Petro, +380671234567'')"
  by (simp add: fuzzy_query_example) (simp add: exact_query_def ustr_def)

lemma tokens_examples:
  "tokens unicode_fragment (ustr ''Melnyk Petro, +380671234567'') = [ustr ''Melnyk'', ustr ''Petro'']"
  "tokens unicode_fragment (ustr ''Melnyk Petro, 380671234567'') = [ustr ''Melnyk'', ustr ''Petro'']"
  "tokens unicode_fragment (ustr ''melnyk petro ivanovych, 380671234567'')
     = [ustr ''melnyk'', ustr ''petro'', ustr ''ivanovych'']"
  by (simp_all add: tokens_def before_comma_def ns_eval)

lemma overlap_key_examples:
  "overlap_key unicode_fragment [ustr ''Melnyk'', ustr ''Petro''] folder_short = (2, 26)"
  "overlap_key unicode_fragment [ustr ''Melnyk'', ustr ''Petro''] folder_long = (0, 36)"
  "lowercase_overlap_key unicode_fragment [ustr ''Melnyk'', ustr ''Petro''] folder_short = (0, 26)"
  "lowercase_overlap_key unicode_fragment [ustr ''Melnyk'', ustr ''Petro''] folder_long = (0, 36)"
  "caseless_overlap_key unicode_fragment [ustr ''Melnyk'', ustr ''Petro''] folder_short = (2, 26)"
  "caseless_overlap_key unicode_fragment [ustr ''Melnyk'', ustr ''Petro''] folder_long = (2, 36)"
  by (simp_all add: overlap_key_def lowercase_overlap_key_def caseless_overlap_key_def
      tokens_examples overlap_def folder_names)
     (simp_all add: ustr_def frag)

lemma phone_matched_example2:
  "phone_matched unicode_fragment (ustr ''+380671234567'') [folder_short, folder_long, folder_other]
     = [folder_short, folder_long]"
  by (simp add: phone_matched_def folder_ids ids_distinct extract_examples phone_example
      phone_example2 phones_distinct nonempty_phone)

lemma overlap_sorted_example:
  "sort_reverse (overlap_key unicode_fragment [ustr ''Melnyk'', ustr ''Petro''])
     [folder_short, folder_long] = [folder_short, folder_long]"
  by (simp add: sort_reverse_def overlap_key_examples)

lemma phone_run_example:
  "find_folder_by_phone unicode_fragment (one_page_drive [folder_short, folder_long, folder_other])
     (Suc 0) (ustr ''root'') (ustr ''+380671234567'') (Some (ustr ''Melnyk Petro, +380671234567''))
   = Some (Inr (Some folder_short))"
proof -
  have ne: "ustr ''Melnyk Petro, +380671234567'' \<noteq> []" by (simp add: ustr_def)
  have pick: "phone_pick unicode_fragment (Some (ustr ''Melnyk Petro, +380671234567''))
      [folder_short, folder_long] = Some folder_short"
    using ne by (simp add: phone_pick_def tokens_examples overlap_sorted_example)
  show ?thesis
    by (simp add: find_folder_by_phone_def Let_def phone_example drive_search_def
        one_page_drive_def phone_matched_example2 pick)
qed

section \<open>Folder search\<close>

lemma sort_reverse_set: "set (sort_reverse k xs) = set xs"
  by (simp add: sort_reverse_def)

lemma sorted_last_max:
  "sorted (map k zs) \<Longrightarrow> z \<in> set zs \<Longrightarrow> k z \<le> k (last zs)"
proof (induction zs)
  case Nil then show ?case by simp
next
  case (Cons a zs)
  then show ?case by (cases zs) auto
qed

lemma hd_filter_split:
  "\<exists>y\<in>set xs. P y \<Longrightarrow>
   \<exists>pre post. xs = pre @ hd (filter P xs) # post \<and> (\<forall>g\<in>set pre. \<not> P g)"
proof (induction xs)
  case Nil then show ?case by simp
next
  case (Cons x xs)
  show ?case
  proof (cases "P x")
    case True
    then have "x # xs = [] @ hd (filter P (x # xs)) # xs \<and> (\<forall>g\<in>set []. \<not> P g)" by simp
    then show ?thesis by blast
  next
    case False
    with Cons.prems have "\<exists>y\<in>set xs. P y" by auto
    from Cons.IH[OF this] obtain pre post where
      "xs = pre @ hd (filter P xs) # post" "\<forall>g\<in>set pre. \<not> P g" by blast
    with False have "x # xs = (x # pre) @ hd (filter P (x # xs)) # post
        \<and> (\<forall>g\<in>set (x # pre). \<not> P g)" by simp
    then show ?thesis by blast
  qed
qed

text \<open>The head of the list sorted in reverse has the greatest key, and is the first of
  the list with that key.\<close>

lemma sort_reverse_hd:
  assumes "sort_reverse k xs = f # rest"
  shows "f \<in> set xs" and "\<And>g. g \<in> set xs \<Longrightarrow> k g \<le> k f"
    and "f = hd (filter (\<lambda>y. k y = k f) xs)"
proof -
  let ?zs = "sort_key k (rev xs)"
  from assms have "rev ?zs = f # rest" by (simp add: sort_reverse_def)
  then have "rev (rev ?zs) = rev (f # rest)" by (rule arg_cong)
  then have zs: "?zs = rev rest @ [f]" by simp
  then have last: "last ?zs = f" by simp
  from zs have "f \<in> set ?zs" by simp
  then show mem: "f \<in> set xs" by simp
  show "k g \<le> k f" if "g \<in> set xs" for g
    using sorted_last_max[of k ?zs g] that last by simp
  have "filter (\<lambda>y. k y = k f) ?zs = filter (\<lambda>y. k y = k f) (rev xs)"
    by (rule sort_key_stable)
  moreover from zs have "filter (\<lambda>y. k y = k f) ?zs = filter (\<lambda>y. k y = k f) (rev rest) @ [f]"
    by simp
  ultimately have "rev (filter (\<lambda>y. k y = k f) xs) = filter (\<lambda>y. k y = k f) (rev rest) @ [f]"
    by (simp add: rev_filter)
  then have "rev (rev (filter (\<lambda>y. k y = k f) xs))
      = rev (filter (\<lambda>y. k y = k f) (rev rest) @ [f])" by (rule arg_cong)
  then have "filter (\<lambda>y. k y = k f) xs = f # rev (filter (\<lambda>y. k y = k f) (rev rest))" by simp
  then show "f = hd (filter (\<lambda>y. k y = k f) xs)" by simp
qed

text \<open>The same, as a decomposition of the list.\<close>

lemma sort_reverse_first_max:
  assumes "sort_reverse k xs = f # rest"
  shows "\<exists>pre post. xs = pre @ f # post \<and> (\<forall>g\<in>set pre. k g < k f) \<and> (\<forall>g\<in>set post. k g \<le> k f)"
proof -
  note h = sort_reverse_hd[OF assms]
  from h(1) have "\<exists>y\<in>set xs. k y = k f" by auto
  from hd_filter_split[of xs "\<lambda>y. k y = k f", OF this] h(3)
  obtain pre post where xs: "xs = pre @ f # post" and pre: "\<forall>g\<in>set pre. k g \<noteq> k f"
    by auto
  from xs h(2) have le: "\<forall>g\<in>set pre. k g \<le> k f" "\<forall>g\<in>set post. k g \<le> k f" by auto
  from pre le(1) have "\<forall>g\<in>set pre. k g < k f" by (auto simp: less_le)
  with xs le(2) show ?thesis by blast
qed

lemma sort_reverse_nonempty: "xs \<noteq> [] \<Longrightarrow> \<exists>f rest. sort_reverse k xs = f # rest"
proof -
  assume "xs \<noteq> []"
  then have "set (sort_reverse k xs) \<noteq> {}" by (simp add: sort_reverse_set)
  then show ?thesis by (cases "sort_reverse k xs") auto
qed

lemma fetch_pages_one_page:
  "drive q 100 None = Inr (items, None) \<Longrightarrow> fetch_pages (Suc n) drive q None = Some (Inr items)"
  by (simp add: drive_search_def)

lemma phone_pick_mem: "phone_pick U e m = Some f \<Longrightarrow> f \<in> set m"
  by (auto simp: phone_pick_def Let_def split: if_splits list.splits dest: sort_reverse_hd(1))

lemma phone_matched_sound:
  "f \<in> set (phone_matched U e164 items) \<Longrightarrow>
   \<exists>cand. extract_e164_from_title U (fname f) = Some cand \<and> normalize_phone_e164_ua U cand = e164"
  by (auto simp: phone_matched_def split: option.splits)

lemma extract_canonical:
  "extract_e164_from_title U t = Some cand \<Longrightarrow> \<exists>x. cand = normalize_phone_e164_ua U x"
  by (auto simp: extract_e164_from_title_def Let_def split: if_splits)

lemma find_folder_by_phone_Some:
  assumes "find_folder_by_phone U drive fuel parent phone e = Some (Inr (Some f))"
  shows "f \<in> set (phone_matched U (normalize_phone_e164_ua U phone)
            (case fetch_pages fuel drive (phone_query U parent (normalize_phone_e164_ua U phone)) None of
               Some (Inr items) \<Rightarrow> items | _ \<Rightarrow> []))"
  using assms
  by (auto simp: find_folder_by_phone_def Let_def split: option.splits sum.splits
      dest: phone_pick_mem)

lemma contains_Nil: "contains s [] = True"
  by (cases s) simp_all

lemma fuzzy_pick_kept:
  "fuzzy_pick U last9 items
     = (case sort_reverse (\<lambda>f. length (fname f))
               (filter (\<lambda>f. contains (filter (isdigit U) (fname f)) last9) items) of
          [] \<Rightarrow> None | f # _ \<Rightarrow> Some f)"
  by (cases "last9 = []") (simp_all add: fuzzy_pick_def contains_Nil)

lemma fuzzy_pick_first_longest:
  assumes "kept = filter (\<lambda>f. contains (filter (isdigit U) (fname f)) last9) items"
    and "kept \<noteq> []"
  shows "\<exists>f pre post. fuzzy_pick U last9 items = Some f \<and> kept = pre @ f # post
     \<and> (\<forall>g\<in>set pre. length (fname g) < length (fname f))
     \<and> (\<forall>g\<in>set post. length (fname g) \<le> length (fname f))"
proof -
  from sort_reverse_nonempty[OF assms(2)] obtain f rest
    where s: "sort_reverse (\<lambda>f. length (fname f)) kept = f # rest" by blast
  from sort_reverse_first_max[OF s] obtain pre post where
    "kept = pre @ f # post" "\<forall>g\<in>set pre. length (fname g) < length (fname f)"
    "\<forall>g\<in>set post. length (fname g) \<le> length (fname f)" by blast
  moreover from s assms(1) have "fuzzy_pick U last9 items = Some f"
    by (simp add: fuzzy_pick_kept)
  ultimately show ?thesis by blast
qed

lemma overlap_card: "overlap a b = card (set a \<inter> set b)"
proof -
  have "set (filter (\<lambda>t. t \<in> set b) a) = set a \<inter> set b" by auto
  then show ?thesis by (simp add: overlap_def length_remdups_card_conv)
qed

lemma phone_pick_ranked:
  assumes "2 \<le> length matched" and "e \<noteq> []"
  shows "\<exists>f rest. sort_reverse (overlap_key U (tokens U e)) matched = f # rest
     \<and> phone_pick U (Some e) matched = Some f"
proof -
  from assms(1) have ne: "matched \<noteq> []" by auto
  from sort_reverse_nonempty[OF ne] obtain f rest
    where s: "sort_reverse (overlap_key U (tokens U e)) matched = f # rest" by blast
  from assms ne s have "phone_pick U (Some e) matched = Some f"
    by (simp add: phone_pick_def)
  with s show ?thesis by blast
qed

text \<open>Once the paging loop has ended within some number of calls, allowing more calls
  does not change what it returns.\<close>

lemma fetch_pages_more_fuel:
  "fetch_pages n drive q token = Some r \<Longrightarrow> fetch_pages (n + k) drive q token = Some r"
proof (induction n arbitrary: token r)
  case 0 then show ?case by simp
next
  case (Suc n)
  show ?case
  proof (cases "drive_search drive q 100 token")
    case (Inl e)
    with Suc.prems show ?thesis by simp
  next
    case (Inr page)
    obtain batch token' where page: "page = (batch, token')" by (cases page)
    show ?thesis
    proof (cases "token' = None \<or> token' = Some []")
      case True
      with Suc.prems Inr page show ?thesis by simp
    next
      case False
      with Suc.prems Inr page obtain r' where
        r': "fetch_pages n drive q token' = Some r'" by (auto split: option.splits)
      from Suc.IH[OF r'] have "fetch_pages (n + k) drive q token' = Some r'" .
      with Suc.prems Inr page False r' show ?thesis by auto
    qed
  qed
qed

lemma find_folder_by_fuzzy_more_fuel:
  "find_folder_by_fuzzy U drive n parent fio last9 = Some r \<Longrightarrow>
   find_folder_by_fuzzy U drive (n + k) parent fio last9 = Some r"
  by (auto simp: find_folder_by_fuzzy_def split: option.splits sum.splits
      dest: fetch_pages_more_fuel[where k = k])

lemma find_folder_by_phone_more_fuel:
  "find_folder_by_phone U drive n parent phone e = Some r \<Longrightarrow>
   find_folder_by_phone U drive (n + k) parent phone e = Some r"
  by (auto simp: find_folder_by_phone_def Let_def split: option.splits sum.splits
      dest: fetch_pages_more_fuel[where k = k])

text \<open>The result of the search does not depend on the number of calls allowed, once
  they are enough.\<close>

lemma find_client_folder_strict_more_fuel:
  assumes "find_client_folder_strict U drive n root title phone = Some r"
  shows "find_client_folder_strict U drive (n + k) root title phone = Some r"
proof (cases "find_folder_by_exact_name_under drive root title")
  case (Inl e)
  with assms have "r = Inl e" by (simp add: find_client_folder_strict_def)
  with Inl show ?thesis by (simp add: find_client_folder_strict_def)
next
  case (Inr exact)
  show ?thesis
  proof (cases exact)
    case (Some f)
    with Inr assms have "r = Inr (Some f)" by (simp add: find_client_folder_strict_def)
    with Inr Some show ?thesis by (simp add: find_client_folder_strict_def)
  next
    case None
    let ?fz = "\<lambda>m. find_folder_by_fuzzy U drive m root
        (normalize_folder_title_for_compare U title) (last_n 9 (filter (isdigit U) phone))"
    from assms Inr None obtain z where z: "?fz n = Some z"
      by (auto simp: find_client_folder_strict_def Let_def split: option.splits)
    from find_folder_by_fuzzy_more_fuel[OF z] have z': "?fz (n + k) = Some z" .
    show ?thesis
    proof (cases "z = Inr None")
      case True
      with assms Inr None z
      have "find_folder_by_phone U drive n root phone (Some title) = Some r"
        by (simp add: find_client_folder_strict_def Let_def)
      from find_folder_by_phone_more_fuel[OF this] True Inr None z'
      show ?thesis by (simp add: find_client_folder_strict_def Let_def)
    next
      case False
      with assms Inr None z z' show ?thesis
        by (auto simp: find_client_folder_strict_def Let_def split: sum.splits option.splits)
    qed
  qed
qed

section \<open>The first tier on a store that reads the query\<close>

lemma read_literal_clean:
  "39 \<notin> set s \<Longrightarrow> 92 \<notin> set s \<Longrightarrow>
   read_literal acc (s @ 39 # rest) = Some (rev acc @ s, rest)"
proof (induction s arbitrary: acc)
  case Nil
  then show ?case by (cases rest) simp_all
next
  case (Cons c s)
  from Cons.prems have c: "c \<noteq> 39" "c \<noteq> 92" and s: "39 \<notin> set s" "92 \<notin> set s" by auto
  obtain d cs where t: "s @ 39 # rest = d # cs" by (cases "s @ 39 # rest") auto
  from c t have "read_literal acc ((c # s) @ 39 # rest) = read_literal (c # acc) (s @ 39 # rest)"
    by simp
  with Cons.IH[OF s, of "c # acc"] show ?case by simp
qed

text \<open>For a root id and a title without quote or backslash the store reads the query of
  the first tier as it was meant: it answers with the children named by the title.\<close>

lemma literal_store_exact:
  assumes "39 \<notin> set root" and "92 \<notin> set root" and "39 \<notin> set title" and "92 \<notin> set title"
  shows "literal_store root kids (exact_query root title) n tok
           = Inr (take n (filter (\<lambda>f. fname f = title) kids), None)"
proof -
  let ?tail = "ustr '' and mimeType='application/vnd.google-apps.folder' and trashed=false''"
  let ?mid = "ustr '' in parents and name = '' @ [39]"
  have q: "exact_query root title = 39 # (root @ 39 # (?mid @ (title @ 39 # ?tail)))"
    by (simp add: exact_query_def)
  have 1: "read_literal [] (root @ 39 # (?mid @ (title @ 39 # ?tail)))
             = Some (root, ?mid @ (title @ 39 # ?tail))"
    using read_literal_clean[OF assms(1,2), of "[]"] by simp
  have len: "length ?mid = 24" by (simp add: ustr_def)
  have 2: "startswith (?mid @ (title @ 39 # ?tail)) ?mid"
    by (simp add: startswith_def)
  from len have 3: "drop 24 (?mid @ (title @ 39 # ?tail)) = title @ 39 # ?tail"
    by simp
  have 4: "read_literal [] (title @ 39 # ?tail) = Some (title, ?tail)"
    using read_literal_clean[OF assms(3,4), of "[]"] by simp
  show ?thesis
    unfolding literal_store_def q
    by (simp only: list.case 1 option.case prod.case 2 3 4 if_True if_False refl simp_thms)
qed

text \<open>So a child of the root with the exact name is returned, whatever the later tiers
  would find, when the title has no quote and no backslash.\<close>

lemma exact_child_returned:
  assumes "39 \<notin> set root" and "92 \<notin> set root" and "39 \<notin> set title" and "92 \<notin> set title"
    and "f \<in> set kids" and "fname f = title"
  shows "\<exists>g. find_client_folder_strict U (literal_store root kids) fuel root title phone
               = Some (Inr (Some g)) \<and> g \<in> set kids \<and> fname g = title"
proof -
  let ?hits = "filter (\<lambda>f. fname f = title) kids"
  from assms(5,6) have "f \<in> set ?hits" by simp
  then obtain g rest where h: "?hits = g # rest" by (cases ?hits) auto
  then have "g \<in> set ?hits" by simp
  then have g: "g \<in> set kids" "fname g = title" by simp_all
  from h literal_store_exact[OF assms(1-4), of kids 1 None]
  have "find_client_folder_strict U (literal_store root kids) fuel root title phone
          = Some (Inr (Some g))"
    by (simp add: find_client_folder_strict_def find_folder_by_exact_name_under_def
        drive_search_def)
  with g show ?thesis by blast
qed

text \<open>Whenever the first page of the answer to the query of the first tier has a record,
  that record is returned.\<close>

lemma exact_hit_returned:
  assumes "drive_search drive (exact_query root_folder_id expected_title) 1 None
             = Inr (f # rest, token)"
  shows "find_client_folder_strict U drive fuel root_folder_id expected_title phone_e164
           = Some (Inr (Some f))"
  using assms by (simp add: find_client_folder_strict_def find_folder_by_exact_name_under_def)

text \<open>
  C3. Under the character classes of Unicode, every folder that \<open>find_folder_by_phone\<close>
  returns has a name from which \<open>_extract_e164_from_title\<close> yields a phone, and that
  phone is the canonical form of the expected phone; so a folder whose name yields no
  phone, or another one, is not returned.
\<close>

theorem C3_phone_confirmed:
  assumes "classes_ok U"
    and "find_folder_by_phone U drive fuel parent_id phone_e164 expected_fio = Some (Inr (Some f))"
  shows "extract_e164_from_title U (fname f) = Some (normalize_phone_e164_ua U phone_e164)"
proof -
  from find_folder_by_phone_Some[OF assms(2)] phone_matched_sound
  obtain cand where c: "extract_e164_from_title U (fname f) = Some cand"
    and n: "normalize_phone_e164_ua U cand = normalize_phone_e164_ua U phone_e164" by blast
  from extract_canonical[OF c] obtain x where "cand = normalize_phone_e164_ua U x" ..
  with normalize_phone_idem[OF assms(1), of x] have "normalize_phone_e164_ua U cand = cand"
    by simp
  with c n show ?thesis by simp
qed

theorem C3_phone_confirmed_witness:
  "classes_ok unicode_fragment
   \<and> find_folder_by_phone unicode_fragment (one_page_drive [folder_short, folder_other]) (Suc 0)
        (ustr ''root'') (ustr ''+380671234567'') (Some (ustr ''Melnyk Petro, +380671234567''))
      = Some (Inr (Some folder_short))
   \<and> extract_e164_from_title unicode_fragment (fname folder_short)
      = Some (normalize_phone_e164_ua unicode_fragment (ustr ''+380671234567''))"
proof -
  have pages: "fetch_pages (Suc 0) (one_page_drive [folder_short, folder_other])
      (phone_query unicode_fragment (ustr ''root'') (ustr ''+380671234567'')) None
      = Some (Inr [folder_short, folder_other])"
    by (simp add: drive_search_def one_page_drive_def)
  have pick: "phone_pick unicode_fragment (Some (ustr ''Melnyk Petro, +380671234567'')) [folder_short]
      = Some folder_short"
    by (simp add: phone_pick_def sort_reverse_def)
  have run: "find_folder_by_phone unicode_fragment (one_page_drive [folder_short, folder_other]) (Suc 0)
        (ustr ''root'') (ustr ''+380671234567'') (Some (ustr ''Melnyk Petro, +380671234567''))
      = Some (Inr (Some folder_short))"
    by (simp add: find_folder_by_phone_def Let_def phone_example pages phone_matched_example pick
        del: fetch_pages.simps)
  from C3_phone_confirmed[OF classes_ok_fragment run] classes_ok_fragment run
  show ?thesis by blast
qed

text \<open>
  C7 (the program differs). The client \<open>Melnyk Mar'yana\<close> with the number
  \<open>+380671234567\<close>: the title the program builds has the apostrophe of the name, and the
  root has a child with exactly this title. \<open>find_folder_by_exact_name_under\<close> writes the
  title between quotes as it is, so the name literal of the query ends at the apostrophe,
  the store refuses the query, and \<open>find_client_folder_strict\<close> raises instead of
  returning the child. And for the title \<open>Melnyk Petro, +380671234567\<close> on a store whose
  answer to the query of the first tier starts with an empty page that has a token: the
  paging loop of the later tiers finds the child with the exact name on the second page,
  the first tier reads one page only, and the folder of the fuzzy tier is returned.
\<close>

theorem C7_exact_child_not_returned:
  "build_folder_title unicode_fragment (ustr ''Melnyk Mar'yana'') (ustr ''+380671234567'')
     = fname folder_quote
   \<and> literal_store (ustr ''root'') [folder_quote] (exact_query (ustr ''root'') (fname folder_quote))
       (Suc 0) None = Inl HttpError
   \<and> find_client_folder_strict unicode_fragment (literal_store (ustr ''root'') [folder_quote])
       (Suc 0) (ustr ''root'') (fname folder_quote) (ustr ''+380671234567'')
     = Some (Inl HttpError)
   \<and> fetch_pages (Suc (Suc 0))
       (paged_drive (exact_query (ustr ''root'') (fname folder_exact)) folder_exact [folder_long])
       (exact_query (ustr ''root'') (fname folder_exact)) None
     = Some (Inr [folder_exact])
   \<and> find_client_folder_strict unicode_fragment
       (paged_drive (exact_query (ustr ''root'') (fname folder_exact)) folder_exact [folder_long])
       (Suc 0) (ustr ''root'') (fname folder_exact) (ustr ''+380671234567'')
     = Some (Inr (Some folder_long))
   \<and> folder_long \<noteq> folder_exact"
proof -
  let ?root = "ustr ''root''"
  let ?S = "literal_store ?root [folder_quote]"
  let ?q0 = "exact_query ?root (fname folder_exact)"
  let ?P = "paged_drive ?q0 folder_exact [folder_long]"
  have t: "build_folder_title unicode_fragment (ustr ''Melnyk Mar'yana'') (ustr ''+380671234567'')
     = fname folder_quote"
    by (simp add: build_folder_title_def folder_quote_def nf_eval) (simp add: np_eval)
  have s: "?S (exact_query ?root (fname folder_quote)) (Suc 0) None = Inl HttpError"
    by (simp add: literal_store_def exact_query_def folder_quote_def ustr_def startswith_def)
  from s have r1: "find_client_folder_strict unicode_fragment ?S (Suc 0) ?root (fname folder_quote)
       (ustr ''+380671234567'') = Some (Inl HttpError)"
    by (simp add: find_client_folder_strict_def find_folder_by_exact_name_under_def
        drive_search_def)
  have p: "fetch_pages (Suc (Suc 0)) ?P ?q0 None = Some (Inr [folder_exact])"
    by (simp add: drive_search_def paged_drive_def ustr_def)
  have e: "find_folder_by_exact_name_under ?P ?root (fname folder_exact) = Inr None"
    by (simp add: find_folder_by_exact_name_under_def drive_search_def paged_drive_def)
  have n: "fname folder_exact = ustr ''Melnyk Petro, +380671234567''"
    by (simp add: folder_exact_def)
  have f: "fetch_pages (Suc 0) ?P
       (fuzzy_query ?root (normalize_folder_title_for_compare unicode_fragment (fname folder_exact)))
       None = Some (Inr [folder_long])"
    unfolding n using queries_distinct by (simp add: drive_search_def paged_drive_def)
  have k: "fuzzy_pick unicode_fragment
       (last_n 9 (filter (isdigit unicode_fragment) (ustr ''+380671234567''))) [folder_long]
     = Some folder_long"
    by (simp add: fuzzy_pick_def sort_reverse_def folder_names) (simp add: ustr_def frag last_n_def)
  from e f k have r2: "find_client_folder_strict unicode_fragment ?P (Suc 0) ?root
       (fname folder_exact) (ustr ''+380671234567'') = Some (Inr (Some folder_long))"
    by (simp add: find_client_folder_strict_def find_folder_by_fuzzy_def
        del: fetch_pages.simps)
  have d: "folder_long \<noteq> folder_exact"
    by (simp add: folder_long_def folder_exact_def ustr_def)
  from t s r1 p r2 d show ?thesis by blast
qed

text \<open>
  C5 (as stated, refuted). For the expected title \<open>Melnyk Petro, +380671234567\<close> the
  query of the second tier asks for names that contain \<open>Melnyk Petro\<close>, the whole name
  portion, while the surname token is \<open>Melnyk\<close>.
\<close>

theorem C5_counterexample:
  "fuzzy_query (ustr ''root'')
     (normalize_folder_title_for_compare unicode_fragment (ustr ''Melnyk Petro, +380671234567''))
   = ustr '''root' in parents and mimeType='application/vnd.google-apps.folder' and name contains 'Melnyk Petro' and trashed=false''
   \<and> surname_token unicode_fragment (ustr ''Melnyk Petro, +380671234567'') = ustr ''Melnyk''
   \<and> ustr ''Melnyk Petro'' \<noteq> ustr ''Melnyk''"
  using fuzzy_query_example surname_token_example by (simp add: ustr_def)

text \<open>
  C5 (amended). In the second tier the query over the children of the root asks for the
  names that contain the whole name portion of the canonicalised expected title, that is
  everything before its first comma. When the first tier finds nothing and the paging
  loop of the second ends, the candidates whose digits contain the last nine digits of the
  phone are kept, and if any is kept \<open>find_client_folder_strict\<close> returns the one with
  the longest name, the first of them in the order of arrival when several are longest.
\<close>

theorem C5_fuzzy_tier:
  assumes "find_folder_by_exact_name_under drive root_folder_id expected_title = Inr None"
    and "fetch_pages fuel drive
           ([39] @ root_folder_id @ [39]
            @ ustr '' in parents and mimeType='application/vnd.google-apps.folder' and name contains ''
            @ [39] @ before_comma (normalize_folder_title_for_compare U expected_title) @ [39]
            @ ustr '' and trashed=false'') None = Some (Inr items)"
    and "kept = filter (\<lambda>f. contains (filter (isdigit U) (fname f))
                              (last_n 9 (filter (isdigit U) phone_e164))) items"
    and "kept \<noteq> []"
  shows "\<exists>f pre post.
           find_client_folder_strict U drive fuel root_folder_id expected_title phone_e164
             = Some (Inr (Some f))
           \<and> kept = pre @ f # post
           \<and> (\<forall>g\<in>set pre. length (fname g) < length (fname f))
           \<and> (\<forall>g\<in>set post. length (fname g) \<le> length (fname f))"
proof -
  from fuzzy_pick_first_longest[OF assms(3,4)] obtain f pre post where
    pick: "fuzzy_pick U (last_n 9 (filter (isdigit U) phone_e164)) items = Some f"
    and rest: "kept = pre @ f # post" "\<forall>g\<in>set pre. length (fname g) < length (fname f)"
      "\<forall>g\<in>set post. length (fname g) \<le> length (fname f)" by blast
  from assms(2) have pages: "fetch_pages fuel drive
      (fuzzy_query root_folder_id (normalize_folder_title_for_compare U expected_title)) None
      = Some (Inr items)"
    by (simp add: fuzzy_query_def)
  from assms(1) pages pick
  have "find_client_folder_strict U drive fuel root_folder_id expected_title phone_e164
      = Some (Inr (Some f))"
    by (simp add: find_client_folder_strict_def find_folder_by_fuzzy_def Let_def)
  with rest show ?thesis by blast
qed

theorem C5_fuzzy_tier_witness:
  "find_folder_by_exact_name_under
     (answer_drive (exact_query (ustr ''root'') (ustr ''Melnyk Petro, +380671234567'')) []
        [folder_short, folder_long, folder_other])
     (ustr ''root'') (ustr ''Melnyk Petro, +380671234567'') = Inr None
   \<and> fetch_pages (Suc 0)
       (answer_drive (exact_query (ustr ''root'') (ustr ''Melnyk Petro, +380671234567'')) []
          [folder_short, folder_long, folder_other])
       (ustr '''root' in parents and mimeType='application/vnd.google-apps.folder' and name contains 'Melnyk Petro' and trashed=false'')
       None = Some (Inr [folder_short, folder_long, folder_other])
   \<and> filter (\<lambda>f. contains (filter (isdigit unicode_fragment) (fname f))
                  (last_n 9 (filter (isdigit unicode_fragment) (ustr ''+380671234567''))))
       [folder_short, folder_long, folder_other] = [folder_short, folder_long]
   \<and> find_client_folder_strict unicode_fragment
       (answer_drive (exact_query (ustr ''root'') (ustr ''Melnyk Petro, +380671234567'')) []
          [folder_short, folder_long, folder_other])
       (Suc 0) (ustr ''root'') (ustr ''Melnyk Petro, +380671234567'') (ustr ''+380671234567'')
     = Some (Inr (Some folder_long))
   \<and> length (fname folder_short) < length (fname folder_long)"
proof -
  let ?D = "answer_drive (exact_query (ustr ''root'') (ustr ''Melnyk Petro, +380671234567'')) []
        [folder_short, folder_long, folder_other]"
  let ?kept = "[folder_short, folder_long]"
  have h1: "find_folder_by_exact_name_under ?D (ustr ''root'') (ustr ''Melnyk Petro, +380671234567'')
      = Inr None"
    by (simp add: find_folder_by_exact_name_under_def drive_search_def answer_drive_def)
  have q: "[39] @ ustr ''root'' @ [39]
            @ ustr '' in parents and mimeType='application/vnd.google-apps.folder' and name contains ''
            @ [39] @ before_comma (normalize_folder_title_for_compare unicode_fragment
                 (ustr ''Melnyk Petro, +380671234567'')) @ [39]
            @ ustr '' and trashed=false''
       = fuzzy_query (ustr ''root'')
           (normalize_folder_title_for_compare unicode_fragment (ustr ''Melnyk Petro, +380671234567''))"
    by (simp add: fuzzy_query_def)
  have h2: "fetch_pages (Suc 0) ?D
           ([39] @ ustr ''root'' @ [39]
            @ ustr '' in parents and mimeType='application/vnd.google-apps.folder' and name contains ''
            @ [39] @ before_comma (normalize_folder_title_for_compare unicode_fragment
                 (ustr ''Melnyk Petro, +380671234567'')) @ [39]
            @ ustr '' and trashed=false'') None
       = Some (Inr [folder_short, folder_long, folder_other])"
    unfolding q using queries_distinct by (simp add: drive_search_def answer_drive_def)
  have h3: "?kept = filter (\<lambda>f. contains (filter (isdigit unicode_fragment) (fname f))
                  (last_n 9 (filter (isdigit unicode_fragment) (ustr ''+380671234567''))))
       [folder_short, folder_long, folder_other]"
    by (simp only: fuzzy_kept_example)
  have h4: "?kept \<noteq> []" by simp
  from C5_fuzzy_tier[OF h1 h2 h3 h4] obtain f pre post where
    r: "find_client_folder_strict unicode_fragment ?D (Suc 0) (ustr ''root'')
          (ustr ''Melnyk Petro, +380671234567'') (ustr ''+380671234567'') = Some (Inr (Some f))"
    and k: "?kept = pre @ f # post"
    and pre: "\<forall>g\<in>set pre. length (fname g) < length (fname f)"
    and post: "\<forall>g\<in>set post. length (fname g) \<le> length (fname f)" by blast
  have len: "length (fname folder_short) < length (fname folder_long)"
    by (simp add: folder_names ustr_def)
  from k have "(pre = [] \<and> f = folder_short \<and> post = [folder_long])
      \<or> (pre = [folder_short] \<and> f = folder_long \<and> post = [])"
    by (cases pre; cases "tl pre") auto
  with post len have f: "f = folder_long" by auto
  from h2 have h2': "fetch_pages (Suc 0) ?D
       (ustr '''root' in parents and mimeType='application/vnd.google-apps.folder' and name contains 'Melnyk Petro' and trashed=false'')
       None = Some (Inr [folder_short, folder_long, folder_other])"
    unfolding q fuzzy_query_example .
  from h1 h2' fuzzy_kept_example r f len show ?thesis by blast
qed

text \<open>
  C10 (as stated, refuted). The expected title is \<open>Melnyk Petro, +380671234567\<close>; two
  candidates are confirmed by the phone, \<open>Melnyk Petro, 380671234567\<close> and the longer
  \<open>melnyk petro ivanovych, 380671234567\<close>. The program returns the first, which shares
  two tokens with the expected name as they are written. With the tokens of the
  candidates in lower case neither shares a token with \<open>Melnyk\<close> and \<open>Petro\<close>, and
  with both sides in lower case both share two: either way the key of the second is the
  greater one, by the length of its name.
\<close>

theorem C10_counterexample:
  "find_folder_by_phone unicode_fragment (one_page_drive [folder_short, folder_long, folder_other])
     (Suc 0) (ustr ''root'') (ustr ''+380671234567'') (Some (ustr ''Melnyk Petro, +380671234567''))
   = Some (Inr (Some folder_short))
   \<and> lowercase_overlap_key unicode_fragment
        (tokens unicode_fragment (ustr ''Melnyk Petro, +380671234567'')) folder_short
     < lowercase_overlap_key unicode_fragment
        (tokens unicode_fragment (ustr ''Melnyk Petro, +380671234567'')) folder_long
   \<and> caseless_overlap_key unicode_fragment
        (tokens unicode_fragment (ustr ''Melnyk Petro, +380671234567'')) folder_short
     < caseless_overlap_key unicode_fragment
        (tokens unicode_fragment (ustr ''Melnyk Petro, +380671234567'')) folder_long"
  by (simp add: phone_run_example tokens_examples overlap_key_examples)

text \<open>
  C10 (amended). In the third tier, when two or more candidates are confirmed by the
  phone and a non-empty expected name is supplied, \<open>find_folder_by_phone\<close> returns the
  candidate that maximises the size of the intersection between the set of name tokens
  before the candidate's first comma and the set of tokens of the expected name, the
  tokens compared as they are written, without a change of case; among those the one
  with the longest name.
\<close>

theorem C10_overlap_ranking:
  assumes "fetch_pages fuel drive
             (phone_query U parent_id (normalize_phone_e164_ua U phone_e164)) None
           = Some (Inr items)"
    and "matched = phone_matched U (normalize_phone_e164_ua U phone_e164) items"
    and "2 \<le> length matched" and "expected_fio \<noteq> []"
  shows "\<exists>f\<in>set matched.
           find_folder_by_phone U drive fuel parent_id phone_e164 (Some expected_fio)
             = Some (Inr (Some f))
           \<and> (\<forall>g\<in>set matched.
                 (card (set (tokens U (fname g)) \<inter> set (tokens U expected_fio)), length (fname g))
               \<le> (card (set (tokens U (fname f)) \<inter> set (tokens U expected_fio)), length (fname f)))"
proof -
  from phone_pick_ranked[OF assms(3,4)] obtain f rest where
    s: "sort_reverse (overlap_key U (tokens U expected_fio)) matched = f # rest"
    and p: "phone_pick U (Some expected_fio) matched = Some f" by blast
  from assms(1,2) p
  have run: "find_folder_by_phone U drive fuel parent_id phone_e164 (Some expected_fio)
      = Some (Inr (Some f))"
    by (simp add: find_folder_by_phone_def Let_def)
  from sort_reverse_hd(1,2)[OF s]
  have mem: "f \<in> set matched"
    and mx: "\<And>g. g \<in> set matched \<Longrightarrow>
       overlap_key U (tokens U expected_fio) g \<le> overlap_key U (tokens U expected_fio) f"
    by blast+
  from mx have "\<forall>g\<in>set matched.
                 (card (set (tokens U (fname g)) \<inter> set (tokens U expected_fio)), length (fname g))
               \<le> (card (set (tokens U (fname f)) \<inter> set (tokens U expected_fio)), length (fname f))"
    by (simp add: overlap_key_def overlap_card)
  with run mem show ?thesis by blast
qed

theorem C10_overlap_ranking_witness:
  "fetch_pages (Suc 0) (one_page_drive [folder_short, folder_long, folder_other])
     (phone_query unicode_fragment (ustr ''root'')
        (normalize_phone_e164_ua unicode_fragment (ustr ''+380671234567''))) None
     = Some (Inr [folder_short, folder_long, folder_other])
   \<and> phone_matched unicode_fragment (normalize_phone_e164_ua unicode_fragment (ustr ''+380671234567''))
       [folder_short, folder_long, folder_other] = [folder_short, folder_long]
   \<and> 2 \<le> length [folder_short, folder_long]
   \<and> ustr ''Melnyk Petro, +380671234567'' \<noteq> []
   \<and> find_folder_by_phone unicode_fragment (one_page_drive [folder_short, folder_long, folder_other])
       (Suc 0) (ustr ''root'') (ustr ''+380671234567'') (Some (ustr ''Melnyk Petro, +380671234567''))
     = Some (Inr (Some folder_short))
   \<and> folder_long \<in> set [folder_short, folder_long]
   \<and> (card (set (tokens unicode_fragment (fname folder_long))
             \<inter> set (tokens unicode_fragment (ustr ''Melnyk Petro, +380671234567''))),
        length (fname folder_long))
     \<le> (card (set (tokens unicode_fragment (fname folder_short))
             \<inter> set (tokens unicode_fragment (ustr ''Melnyk Petro, +380671234567''))),
        length (fname folder_short))"
proof -
  let ?D = "one_page_drive [folder_short, folder_long, folder_other]"
  let ?E = "ustr ''Melnyk Petro, +380671234567''"
  have h1: "fetch_pages (Suc 0) ?D
     (phone_query unicode_fragment (ustr ''root'')
        (normalize_phone_e164_ua unicode_fragment (ustr ''+380671234567''))) None
     = Some (Inr [folder_short, folder_long, folder_other])"
    by (simp add: drive_search_def one_page_drive_def)
  have m: "phone_matched unicode_fragment (normalize_phone_e164_ua unicode_fragment (ustr ''+380671234567''))
       [folder_short, folder_long, folder_other] = [folder_short, folder_long]"
    by (simp only: phone_example phone_matched_example2)
  have h3: "2 \<le> length [folder_short, folder_long]" by simp
  have h4: "?E \<noteq> []" by (simp add: ustr_def)
  from C10_overlap_ranking[OF h1 m[symmetric] h3 h4] obtain f where
    r: "find_folder_by_phone unicode_fragment ?D (Suc 0) (ustr ''root'') (ustr ''+380671234567'')
          (Some ?E) = Some (Inr (Some f))"
    and mx: "\<forall>g\<in>set [folder_short, folder_long].
                 (card (set (tokens unicode_fragment (fname g)) \<inter> set (tokens unicode_fragment ?E)),
                  length (fname g))
               \<le> (card (set (tokens unicode_fragment (fname f)) \<inter> set (tokens unicode_fragment ?E)),
                  length (fname f))"
    by blast
  from r phone_run_example have f: "f = folder_short" by simp
  have mem: "folder_long \<in> set [folder_short, folder_long]" by simp
  from mx mem f have le: "(card (set (tokens unicode_fragment (fname folder_long))
             \<inter> set (tokens unicode_fragment ?E)), length (fname folder_long))
     \<le> (card (set (tokens unicode_fragment (fname folder_short))
             \<inter> set (tokens unicode_fragment ?E)), length (fname folder_short))"
    by blast
  from h1 m h3 h4 phone_run_example mem le show ?thesis by blast
qed

section \<open>The name normaliser and the title codec\<close>

subsection \<open>Replacing, splitting and joining\<close>

























subsection \<open>Strings that normalisation leaves as they are\<close>


lemma clean_char_simps:
  "clean_char U A c \<Longrightarrow> A c" "clean_char U A c \<Longrightarrow> \<not> isspace U c"
  "clean_char U A c \<Longrightarrow> c \<noteq> 32" "clean_char U A c \<Longrightarrow> c \<noteq> 160"
  "clean_char U A c \<Longrightarrow> c \<notin> set APOSTROPHES"
  by (simp_all add: clean_char_def)




subsection \<open>Title case\<close>





subsection \<open>Splitting, mapping and joining again\<close>









subsection \<open>The name normaliser on canonical and on arbitrary input\<close>




















subsection \<open>Parsing a built title\<close>














end
